theory Spec2Isabelle
  imports Main
begin

section \<open>Go values used by server.go\<close>

text \<open>
  Go strings and byte slices are byte sequences: \<^typ>\<open>string\<close>. A Go \<open>error\<close>
  is \<open>nil\<close> (\<open>None\<close>) or an error value; the only error value the program compares
  against is the sentinel \<open>io.EOF\<close>, and \<open>fmt.Errorf("...: %w", e)\<close> wraps one.
\<close>

datatype go_error = EOF | Err string | Wrapped string go_error

definition CRLF :: string where
  "CRLF = [CHR 0x0D, CHR 0x0A]"

subsection \<open>\<open>fmt.Sprintf\<close> with \<open>%d\<close>\<close>

fun dec_nat :: "nat \<Rightarrow> string" where
  "dec_nat n = (if n < 10 then [''0123456789'' ! n]
                else dec_nat (n div 10) @ [''0123456789'' ! (n mod 10)])"

declare dec_nat.simps [simp del]

definition fmt_d :: "int \<Rightarrow> string" where
  "fmt_d i = (if i < 0 then CHR ''-'' # dec_nat (nat (- i)) else dec_nat (nat i))"

subsection \<open>\<open>http.StatusText\<close>\<close>

text \<open>The table of \<open>net/http\<close>; a code that is not in it has the empty text.\<close>

definition status_table :: "(int \<times> string) list" where
  "status_table =
   [(100, ''Continue''), (101, ''Switching Protocols''), (102, ''Processing''),
    (103, ''Early Hints''),
    (200, ''OK''), (201, ''Created''), (202, ''Accepted''),
    (203, ''Non-Authoritative Information''), (204, ''No Content''),
    (205, ''Reset Content''), (206, ''Partial Content''), (207, ''Multi-Status''),
    (208, ''Already Reported''), (226, ''IM Used''),
    (300, ''Multiple Choices''), (301, ''Moved Permanently''), (302, ''Found''),
    (303, ''See Other''), (304, ''Not Modified''), (305, ''Use Proxy''),
    (307, ''Temporary Redirect''), (308, ''Permanent Redirect''),
    (400, ''Bad Request''), (401, ''Unauthorized''), (402, ''Payment Required''),
    (403, ''Forbidden''), (404, ''Not Found''), (405, ''Method Not Allowed''),
    (406, ''Not Acceptable''), (407, ''Proxy Authentication Required''),
    (408, ''Request Timeout''), (409, ''Conflict''), (410, ''Gone''),
    (411, ''Length Required''), (412, ''Precondition Failed''),
    (413, ''Request Entity Too Large''), (414, ''Request URI Too Long''),
    (415, ''Unsupported Media Type''), (416, ''Requested Range Not Satisfiable''),
    (417, ''Expectation Failed''), (418, ''I'' @ [CHR 0x27] @ ''m a teapot''),
    (421, ''Misdirected Request''), (422, ''Unprocessable Entity''), (423, ''Locked''),
    (424, ''Failed Dependency''), (425, ''Too Early''), (426, ''Upgrade Required''),
    (428, ''Precondition Required''), (429, ''Too Many Requests''),
    (431, ''Request Header Fields Too Large''),
    (451, ''Unavailable For Legal Reasons''),
    (500, ''Internal Server Error''), (501, ''Not Implemented''), (502, ''Bad Gateway''),
    (503, ''Service Unavailable''), (504, ''Gateway Timeout''),
    (505, ''HTTP Version Not Supported''), (506, ''Variant Also Negotiates''),
    (507, ''Insufficient Storage''), (508, ''Loop Detected''), (510, ''Not Extended''),
    (511, ''Network Authentication Required'')]"

definition StatusText :: "int \<Rightarrow> string" where
  "StatusText code = (case map_of status_table code of Some t \<Rightarrow> t | None \<Rightarrow> [])"

definition StatusOK :: int where
  "StatusOK = 200"

section \<open>The store: backing arrays, \<open>bytes.Buffer\<close> objects and the pool\<close>

text \<open>
  \<open>SendStatus\<close> and \<open>SendBody\<close> return \<open>buffer.Bytes()\<close>, a slice that shares the
  buffer's backing array, and the pool hands out pointers to buffers. Both kinds of object
  therefore live in an explicit store, by address.

  A \<open>bytes.Buffer\<close> is its slice \<open>buf\<close> (backing array, length; the capacity is the
  length of the array in the store) and a read offset \<open>off\<close>. This program never reads
  from a buffer, so \<open>off\<close> stays 0 and is left out. Lengths are \<^typ>\<open>nat\<close>: the
  \<open>ErrTooLarge\<close> panic of a buffer beyond \<open>maxInt\<close> bytes is outside the model.

  The pool is \<open>sync.Pool\<close> with \<open>New = bytes.NewBuffer(nil)\<close>, taken as a free list:
  \<open>Get\<close> pops the most recently released buffer and calls \<open>New\<close> when the list is
  empty, \<open>Put\<close> pushes. The list \<open>pool_log\<close> is a ghost record of the calls made on
  the pool; no operation reads it.
\<close>

type_synonym addr = nat

record buffer =
  buf_arr :: "addr option"
  buf_len :: nat

record slice =
  sl_arr :: "addr option"
  sl_len :: nat

datatype pool_event = PoolGet addr | PoolPut addr

record server =
  arrays :: "addr \<Rightarrow> string"
  next_arr :: addr
  buffers :: "addr \<Rightarrow> buffer"
  next_buf :: addr
  pool_free :: "addr list"
  pool_log :: "pool_event list"

definition NewServer :: server where
  "NewServer = \<lparr>arrays = (\<lambda>_. []), next_arr = 0,
                 buffers = (\<lambda>_. \<lparr>buf_arr = None, buf_len = 0\<rparr>), next_buf = 0,
                 pool_free = [], pool_log = []\<rparr>"

definition pool_Get :: "server \<Rightarrow> addr \<times> server" where
  "pool_Get s =
     (case pool_free s of
        p # rest \<Rightarrow> (p, s\<lparr>pool_free := rest, pool_log := pool_log s @ [PoolGet p]\<rparr>)
      | [] \<Rightarrow> (let p = next_buf s in
               (p, s\<lparr>buffers := (buffers s)(p := \<lparr>buf_arr = None, buf_len = 0\<rparr>),
                     next_buf := Suc p,
                     pool_log := pool_log s @ [PoolGet p]\<rparr>)))"

definition pool_Put :: "addr \<Rightarrow> server \<Rightarrow> server" where
  "pool_Put p s = s\<lparr>pool_free := p # pool_free s, pool_log := pool_log s @ [PoolPut p]\<rparr>"

definition buf_cap :: "server \<Rightarrow> buffer \<Rightarrow> nat" where
  "buf_cap s b = (case buf_arr b of None \<Rightarrow> 0 | Some a \<Rightarrow> length (arrays s a))"

definition Reset :: "addr \<Rightarrow> server \<Rightarrow> server" where
  "Reset p s = s\<lparr>buffers := (buffers s)(p := (buffers s p)\<lparr>buf_len := 0\<rparr>)\<rparr>"

definition smallBufferSize :: nat where
  "smallBufferSize = 64"

definition zero_bytes :: "nat \<Rightarrow> string" where
  "zero_bytes n = replicate n (CHR 0x00)"

definition alloc :: "string \<Rightarrow> server \<Rightarrow> addr \<times> server" where
  "alloc bytes s =
     (next_arr s, s\<lparr>arrays := (arrays s)(next_arr s := bytes), next_arr := Suc (next_arr s)\<rparr>)"

text \<open>
  \<open>tryGrowByReslice\<close> followed by \<open>grow\<close>: make room for \<open>n\<close> more bytes and return
  the index where they go. With \<open>off = 0\<close> the branch of \<open>grow\<close> that slides the content
  down is never taken (it needs \<open>n \<le> c/2 - m\<close>, and reslicing has failed, \<open>n > c - m\<close>).
  A new array has capacity \<open>max (m + n) (2 * c)\<close>, the request that \<open>growSlice\<close> makes of
  the runtime, and holds the old content followed by zero bytes. (The runtime may round the
  capacity up; the properties below are stated where the exact capacity plays no part.)
\<close>

definition grow :: "addr \<Rightarrow> nat \<Rightarrow> server \<Rightarrow> nat \<times> server" where
  "grow p n s =
     (let b = buffers s p; m = buf_len b; c = buf_cap s b in
      if n \<le> c - m then
        (m, s\<lparr>buffers := (buffers s)(p := b\<lparr>buf_len := m + n\<rparr>)\<rparr>)
      else if buf_arr b = None \<and> n \<le> smallBufferSize then
        (let (a, s1) = alloc (zero_bytes smallBufferSize) s in
         (0, s1\<lparr>buffers := (buffers s1)(p := \<lparr>buf_arr = Some a, buf_len = n\<rparr>)\<rparr>))
      else
        (let old = (case buf_arr b of None \<Rightarrow> [] | Some a \<Rightarrow> take m (arrays s a));
             (a, s1) = alloc (old @ zero_bytes (max (m + n) (2 * c) - m)) s in
         (m, s1\<lparr>buffers := (buffers s1)(p := \<lparr>buf_arr = Some a, buf_len = m + n\<rparr>)\<rparr>)))"

text \<open>\<open>copy(dst[m:], src)\<close> on the array \<open>dst\<close>: as many bytes as fit.\<close>

definition copy_at :: "nat \<Rightarrow> string \<Rightarrow> string \<Rightarrow> string" where
  "copy_at m src dst =
     (let k = min (length dst - m) (length src) in take m dst @ take k src @ drop (m + k) dst)"

definition WriteString :: "addr \<Rightarrow> string \<Rightarrow> server \<Rightarrow> server" where
  "WriteString p str s =
     (let (m, s1) = grow p (length str) s in
      case buf_arr (buffers s1 p) of
        None \<Rightarrow> s1
      | Some a \<Rightarrow> s1\<lparr>arrays := (arrays s1)(a := copy_at m str (arrays s1 a))\<rparr>)"

definition Bytes :: "addr \<Rightarrow> server \<Rightarrow> slice" where
  "Bytes p s = \<lparr>sl_arr = buf_arr (buffers s p), sl_len = buf_len (buffers s p)\<rparr>"

text \<open>What a holder of a slice reads through it in a given store.\<close>

definition slice_bytes :: "server \<Rightarrow> slice \<Rightarrow> string" where
  "slice_bytes s sl = (case sl_arr sl of None \<Rightarrow> [] | Some a \<Rightarrow> take (sl_len sl) (arrays s a))"

section \<open>Building responses\<close>

text \<open>
  \<open>date\<close> is the value of \<open>time.Now().Format(time.RFC1123)\<close> at the call, an input from
  the environment. The deferred \<open>Put\<close> runs after the result \<open>buffer.Bytes()\<close> has been
  evaluated and before the caller receives it, so it is the last step of the model.
\<close>

definition SendStatus :: "string \<Rightarrow> int \<Rightarrow> server \<Rightarrow> slice \<times> server" where
  "SendStatus date statusCode s =
     (let (buffer, s') = pool_Get s;
          s0 = Reset buffer s';
          s1 = WriteString buffer
                 (''HTTP/1.1 '' @ fmt_d statusCode @ '' '' @ StatusText statusCode @ CRLF) s0;
          s2 = WriteString buffer (''Content-Length: 0'' @ CRLF) s1;
          s3 = WriteString buffer (''Date: '' @ date @ CRLF) s2;
          s4 = WriteString buffer CRLF s3;
          result = Bytes buffer s4
      in (result, pool_Put buffer s4))"

definition SendBody :: "string \<Rightarrow> int \<Rightarrow> string \<Rightarrow> server \<Rightarrow> slice \<times> server" where
  "SendBody date statusCode body s =
     (let (buffer, s') = pool_Get s;
          s0 = Reset buffer s';
          s1 = WriteString buffer
                 (''HTTP/1.1 '' @ fmt_d statusCode @ '' '' @ StatusText statusCode @ CRLF) s0;
          s2 = WriteString buffer
                 (''Content-Length: '' @ fmt_d (int (length body)) @ CRLF) s1;
          s3 = WriteString buffer (''Date: '' @ date @ CRLF) s2;
          s4 = WriteString buffer CRLF s3;
          s5 = WriteString buffer body s4;
          result = Bytes buffer s5
      in (result, pool_Put buffer s5))"

section \<open>The connection\<close>

text \<open>
  Modelled from the spec: the type \<open>Connection\<close> with \<open>NewConnection\<close>, \<open>Read\<close>,
  \<open>Write\<close>, \<open>SetReadDeadline\<close> and \<open>Close\<close> is declared outside server.go. From the
  spec's interface \<open>read() -> bytes | EOF | error\<close>, \<open>write(bytes) -> error|nil\<close>,
  \<open>setReadDeadline(absoluteTime)\<close>, \<open>close()\<close>: what the peer and the transport do is
  the environment of the connection, \<open>read_at k\<close> the result of its \<open>k\<close>-th read and
  \<open>write_at k\<close> the result of its \<open>k\<close>-th write, and every call is recorded in
  \<open>conn_log\<close>. A deadline \<open>time.Now().Add(n * time.Second)\<close> is recorded as its
  window \<open>n\<close>, in seconds from the call. \<open>NewConnection\<close> wraps an accepted
  stream: a connection on which nothing has happened yet, in the environment given by the
  results of its reads and writes.

  \<open>EvTraffic r\<close> is a ghost event: the supervisor records that one call of \<open>onTraffic\<close>
  has returned \<open>r\<close>.
\<close>

datatype conn_event =
  EvRead | EvWrite string | EvSetReadDeadline nat | EvClose | EvTraffic "go_error option"

record connection =
  read_at :: "nat \<Rightarrow> string \<times> go_error option"
  write_at :: "nat \<Rightarrow> go_error option"
  reads :: nat
  writes :: nat
  conn_log :: "conn_event list"

definition NewConnection ::
  "(nat \<Rightarrow> string \<times> go_error option) \<Rightarrow> (nat \<Rightarrow> go_error option) \<Rightarrow> connection" where
  "NewConnection rd wr = \<lparr>read_at = rd, write_at = wr, reads = 0, writes = 0, conn_log = []\<rparr>"

definition conn_Read :: "connection \<Rightarrow> (string \<times> go_error option) \<times> connection" where
  "conn_Read c = (read_at c (reads c), c\<lparr>reads := Suc (reads c), conn_log := conn_log c @ [EvRead]\<rparr>)"

definition conn_Write :: "string \<Rightarrow> connection \<Rightarrow> go_error option \<times> connection" where
  "conn_Write bs c =
     (write_at c (writes c), c\<lparr>writes := Suc (writes c), conn_log := conn_log c @ [EvWrite bs]\<rparr>)"

definition conn_SetReadDeadline :: "nat \<Rightarrow> connection \<Rightarrow> connection" where
  "conn_SetReadDeadline secs c = c\<lparr>conn_log := conn_log c @ [EvSetReadDeadline secs]\<rparr>"

definition conn_Close :: "connection \<Rightarrow> connection" where
  "conn_Close c = c\<lparr>conn_log := conn_log c @ [EvClose]\<rparr>"

section \<open>Requests\<close>

text \<open>
  \<open>http.ReadRequest\<close> is the external parser: a parameter \<open>ReadRequest\<close> of the
  handler, from the bytes read to an error or a request. Of a request the handler uses the
  header only, Go's \<open>map[string][]string\<close>. \<open>Header.Get\<close> returns the first value
  stored under the canonical form of the key, or the empty string; the one key the program
  asks for, \<open>Connection\<close>, is in canonical form.

  \<open>strings.ToLower\<close> is modelled on bytes: the letters \<open>A\<close> to \<open>Z\<close> are mapped,
  every other byte is kept. Go maps runes; no rune outside ASCII has a lower case among
  the letters of \<open>close\<close>, so the comparison the handler makes is the same.
\<close>

record request =
  Header :: "string \<rightharpoonup> string list"

definition Header_Get :: "(string \<rightharpoonup> string list) \<Rightarrow> string \<Rightarrow> string" where
  "Header_Get h key = (case h key of None \<Rightarrow> [] | Some [] \<Rightarrow> [] | Some (v # _) \<Rightarrow> v)"

definition lower_byte :: "char \<Rightarrow> char" where
  "lower_byte c =
     (case map_of (zip ''ABCDEFGHIJKLMNOPQRSTUVWXYZ'' ''abcdefghijklmnopqrstuvwxyz'') c of
        Some l \<Rightarrow> l
      | None \<Rightarrow> c)"

definition ToLower :: "string \<Rightarrow> string" where
  "ToLower str = map lower_byte str"

section \<open>The traffic handler\<close>

text \<open>
  One call of \<open>onTraffic\<close>. The result is the Go \<open>error\<close> returned: \<open>None\<close> is
  \<open>nil\<close>. The diagnostic \<open>go log.Printf(...)\<close> touches neither the connection nor the
  server and is left out. The results of both writes are discarded, as \<open>_ =\<close> does.
\<close>

definition bad_request :: string where
  "bad_request = ''HTTP/1.1 400 Bad Request'' @ CRLF @ ''Content-Length: 0'' @ CRLF @ CRLF"

definition onTraffic ::
  "(string \<Rightarrow> go_error + request) \<Rightarrow> string \<Rightarrow> server \<Rightarrow> connection
     \<Rightarrow> go_error option \<times> server \<times> connection" where
  "onTraffic ReadRequest date s conn =
     (let ((data, errRead), conn1) = conn_Read conn in
      case errRead of
        Some e \<Rightarrow> if e = EOF then (None, s, conn1) else (Some e, s, conn1)
      | None \<Rightarrow>
          (case ReadRequest data of
             Inl errParse \<Rightarrow>
               (let (_, conn2) = conn_Write bad_request conn1 in (None, s, conn2))
           | Inr req \<Rightarrow>
               (let (resp, s1) = SendStatus date StatusOK s;
                    (_, conn2) = conn_Write (slice_bytes s1 resp) conn1
                in if ToLower (Header_Get (Header req) ''Connection'') = ''close''
                   then (Some EOF, s1, conn2)
                   else (None, s1, conn2))))"

section \<open>The connection supervisor\<close>

text \<open>
  The \<open>for\<close> loop of \<open>handleConnection\<close> has no bound, so it runs on fuel: one unit
  per call of \<open>onTraffic\<close>. \<open>Returned\<close> is the function returning, after the deferred
  \<open>conn.Close()\<close>; \<open>Running\<close> is the state reached when the fuel is used up inside the
  loop. \<open>dates i\<close> is the formatted time the \<open>i\<close>-th cycle would see.
\<close>

datatype run = Returned server connection | Running server connection

fun supervise ::
  "(string \<Rightarrow> go_error + request) \<Rightarrow> (nat \<Rightarrow> string) \<Rightarrow> nat \<Rightarrow> nat \<Rightarrow> server \<Rightarrow> connection
     \<Rightarrow> run" where
  "supervise ReadRequest dates 0 i s conn = Running s conn"
| "supervise ReadRequest dates (Suc fuel) i s conn =
     (let (errOnTraffic, s1, conn1) = onTraffic ReadRequest (dates i) s conn;
          conn2 = conn1\<lparr>conn_log := conn_log conn1 @ [EvTraffic errOnTraffic]\<rparr>
      in if errOnTraffic \<noteq> None
         then Returned s1 (conn_Close conn2)
         else supervise ReadRequest dates fuel (Suc i) s1 (conn_SetReadDeadline 3 conn2))"

definition handleConnection ::
  "(string \<Rightarrow> go_error + request) \<Rightarrow> (nat \<Rightarrow> string) \<Rightarrow> nat \<Rightarrow> server \<Rightarrow> connection \<Rightarrow> run" where
  "handleConnection ReadRequest dates fuel s conn =
     supervise ReadRequest dates fuel 0 s (conn_SetReadDeadline 5 conn)"

section \<open>The accept loop\<close>

text \<open>
  \<open>Listen address\<close> is the error of \<open>net.Listen("tcp", address)\<close> and \<open>Accept k\<close> the
  result of the \<open>k\<close>-th \<open>listenerTLS.Accept()\<close>: an error or a connection, named by a
  number. The loop has no exit, so it runs on fuel, one unit per accept. The events are the
  log lines and the \<open>go s.handleConnection(NewConnection(conn))\<close> statements executed;
  what a started goroutine does is not part of \<open>Run\<close>.
\<close>

datatype run_event = LogListening string | LogAcceptFailed go_error | GoHandleConnection nat

datatype run_result = RunReturned go_error "run_event list" | RunLooping "run_event list"

fun accept_loop :: "(nat \<Rightarrow> go_error + nat) \<Rightarrow> nat \<Rightarrow> nat \<Rightarrow> run_event list \<Rightarrow> run_event list" where
  "accept_loop Accept 0 k tr = tr"
| "accept_loop Accept (Suc fuel) k tr =
     (case Accept k of
        Inl err \<Rightarrow> accept_loop Accept fuel (Suc k) (tr @ [LogAcceptFailed err])
      | Inr conn \<Rightarrow> accept_loop Accept fuel (Suc k) (tr @ [GoHandleConnection conn]))"

definition Run ::
  "(string \<Rightarrow> go_error option) \<Rightarrow> (nat \<Rightarrow> go_error + nat) \<Rightarrow> nat \<Rightarrow> string \<Rightarrow> run_result" where
  "Run Listen Accept fuel address =
     (case Listen address of
        Some errListen \<Rightarrow> RunReturned (Wrapped ''listener start'' errListen) []
      | None \<Rightarrow> RunLooping (accept_loop Accept fuel 0 [LogListening address]))"

section \<open>Notions used to state the properties\<close>

subsection \<open>Buffers and responses\<close>

text \<open>
  A buffer is in order when its length is within its capacity; its content is what its
  own slice reads. \<open>acquire\<close> is the \<open>Get\<close> and the \<open>Reset\<close> with which
  \<open>SendStatus\<close> and \<open>SendBody\<close> start: it gives the buffer and the state in which
  the first write is made. \<open>send\<close> is the common shape of the two operations: acquire,
  write the given strings in order, take the slice, release.
  \<open>status_response\<close> and \<open>body_response\<close> are the byte sequences of the wire format.
\<close>

definition acquire :: "server \<Rightarrow> addr \<times> server" where
  "acquire s = (let (p, s1) = pool_Get s in (p, Reset p s1))"

definition buf_ok :: "server \<Rightarrow> addr \<Rightarrow> bool" where
  "buf_ok s p = (buf_len (buffers s p) \<le> buf_cap s (buffers s p))"

definition contents :: "server \<Rightarrow> addr \<Rightarrow> string" where
  "contents s p = slice_bytes s (Bytes p s)"

definition send :: "string list \<Rightarrow> server \<Rightarrow> slice \<times> server" where
  "send strs s =
     (let (p, s0) = acquire s; s1 = fold (WriteString p) strs s0 in (Bytes p s1, pool_Put p s1))"

definition status_lines :: "string \<Rightarrow> int \<Rightarrow> string list" where
  "status_lines date code =
     [''HTTP/1.1 '' @ fmt_d code @ '' '' @ StatusText code @ CRLF,
      ''Content-Length: 0'' @ CRLF, ''Date: '' @ date @ CRLF, CRLF]"

definition body_lines :: "string \<Rightarrow> int \<Rightarrow> string \<Rightarrow> string list" where
  "body_lines date code body =
     [''HTTP/1.1 '' @ fmt_d code @ '' '' @ StatusText code @ CRLF,
      ''Content-Length: '' @ fmt_d (int (length body)) @ CRLF, ''Date: '' @ date @ CRLF,
      CRLF, body]"

definition status_response :: "string \<Rightarrow> int \<Rightarrow> string" where
  "status_response date code = concat (status_lines date code)"

definition body_response :: "string \<Rightarrow> int \<Rightarrow> string \<Rightarrow> string" where
  "body_response date code body = concat (body_lines date code body)"

definition ok_200 :: "string \<Rightarrow> string" where
  "ok_200 date = ''HTTP/1.1 200 OK'' @ CRLF @ ''Content-Length: 0'' @ CRLF @
                 ''Date: '' @ date @ CRLF @ CRLF"

subsection \<open>Comparing without regard to case\<close>

text \<open>
  Two bytes are the same letter when they are equal or one is the upper case of the
  other; two strings are equal ignoring case when they are so byte by byte.
  \<open>Header_values\<close> is the list of all values a header holds under a key.
\<close>

definition same_letter :: "char \<Rightarrow> char \<Rightarrow> bool" where
  "same_letter a b =
     (a = b \<or> (a, b) \<in> set (zip ''ABCDEFGHIJKLMNOPQRSTUVWXYZ'' ''abcdefghijklmnopqrstuvwxyz'')
            \<or> (b, a) \<in> set (zip ''ABCDEFGHIJKLMNOPQRSTUVWXYZ'' ''abcdefghijklmnopqrstuvwxyz''))"

definition equals_ignoring_case :: "string \<Rightarrow> string \<Rightarrow> bool" where
  "equals_ignoring_case a b = list_all2 same_letter a b"

definition Header_values :: "(string \<rightharpoonup> string list) \<Rightarrow> string \<Rightarrow> string list" where
  "Header_values h key = (case h key of None \<Rightarrow> [] | Some vs \<Rightarrow> vs)"

subsection \<open>Runs of the supervisor and of the accept loop\<close>

text \<open>
  \<open>io_event\<close> holds of the reads and writes, the events of the inside of a cycle;
  \<open>deadlines\<close> lists the windows set, in order. \<open>with_writes w c\<close> is the connection
  \<open>c\<close> in an environment whose writes have the results \<open>w\<close>. \<open>accept_event\<close> is
  what the accept loop does with one result of \<open>Accept\<close>.
\<close>

fun returned :: "run \<Rightarrow> bool" where
  "returned (Returned s c) = True"
| "returned (Running s c) = False"

fun run_conn :: "run \<Rightarrow> connection" where
  "run_conn (Returned s c) = c"
| "run_conn (Running s c) = c"

fun map_conn :: "(connection \<Rightarrow> connection) \<Rightarrow> run \<Rightarrow> run" where
  "map_conn f (Returned s c) = Returned s (f c)"
| "map_conn f (Running s c) = Running s (f c)"

definition with_writes :: "(nat \<Rightarrow> go_error option) \<Rightarrow> connection \<Rightarrow> connection" where
  "with_writes w c = c\<lparr>write_at := w\<rparr>"

fun io_event :: "conn_event \<Rightarrow> bool" where
  "io_event EvRead = True"
| "io_event (EvWrite bs) = True"
| "io_event e = False"

fun deadlines :: "conn_event list \<Rightarrow> nat list" where
  "deadlines [] = []"
| "deadlines (EvSetReadDeadline n # es) = n # deadlines es"
| "deadlines (e # es) = deadlines es"

definition accept_event :: "go_error + nat \<Rightarrow> run_event" where
  "accept_event r =
     (case r of Inl err \<Rightarrow> LogAcceptFailed err | Inr conn \<Rightarrow> GoHandleConnection conn)"

subsection \<open>Concrete environments\<close>

text \<open>
  Inputs on which the operations are evaluated: two dates, three
  requests with the headers a parser reports for them (\<open>demo_ReadRequest\<close> stands for the
  parser on these inputs and rejects everything else), and connections whose environment
  is a script of read results followed by a fixed result.
\<close>

definition script :: "'a list \<Rightarrow> 'a \<Rightarrow> nat \<Rightarrow> 'a" where
  "script xs d k = (if k < length xs then xs ! k else d)"

definition demo_date :: string where
  "demo_date = ''Mon, 02 Jan 2006 15:04:05 MST''"

definition later_date :: string where
  "later_date = ''Mon, 02 Jan 2006 15:04:09 MST''"

definition demo_dates :: "nat \<Rightarrow> string" where
  "demo_dates i = demo_date"

definition get_request :: string where
  "get_request = ''GET / HTTP/1.1'' @ CRLF @ ''Host: x'' @ CRLF @ CRLF"

definition get_keepalive_request :: string where
  "get_keepalive_request =
     ''GET / HTTP/1.1'' @ CRLF @ ''Host: x'' @ CRLF @ ''Connection: keep-alive'' @ CRLF @ CRLF"

definition get_close_request :: string where
  "get_close_request =
     ''GET / HTTP/1.1'' @ CRLF @ ''Host: x'' @ CRLF @ ''Connection: CLOSE'' @ CRLF @ CRLF"

definition host_req :: request where
  "host_req = \<lparr>Header = [''Host'' \<mapsto> [''x'']]\<rparr>"

definition keepalive_req :: request where
  "keepalive_req = \<lparr>Header = [''Host'' \<mapsto> [''x''], ''Connection'' \<mapsto> [''keep-alive'']]\<rparr>"

definition close_req :: request where
  "close_req = \<lparr>Header = [''Host'' \<mapsto> [''x''], ''Connection'' \<mapsto> [''CLOSE'']]\<rparr>"

definition demo_ReadRequest :: "string \<Rightarrow> go_error + request" where
  "demo_ReadRequest data =
     (if data = get_request then Inr host_req
      else if data = get_keepalive_request then Inr keepalive_req
      else if data = get_close_request then Inr close_req
      else Inl (Err ''malformed HTTP request''))"

definition peer_closed :: connection where
  "peer_closed = NewConnection (script [] ([], Some EOF)) (script [] None)"

definition keepalive_conn :: connection where
  "keepalive_conn =
     NewConnection (script [(get_keepalive_request, None)] ([], Some EOF)) (script [] None)"

definition close_conn :: connection where
  "close_conn =
     NewConnection (script [(get_close_request, None)] ([], Some EOF)) (script [] None)"

definition garbage_conn :: connection where
  "garbage_conn = NewConnection (script [(''hello'', None)] ([], Some EOF)) (script [] None)"

definition two_requests :: connection where
  "two_requests =
     NewConnection (script [(get_request, None), (get_close_request, None)] ([], Some EOF))
                   (script [] None)"

definition broken_pipe :: connection where
  "broken_pipe =
     NewConnection
       (script [(''hello'', None), (get_request, None)] ([], Some (Err ''i/o timeout'')))
       (script [] (Some (Err ''broken pipe'')))"

definition demo_Listen :: "string \<Rightarrow> go_error option" where
  "demo_Listen address =
     (if address = '':8443'' then None else Some (Err ''bind: address already in use''))"

definition demo_Accept :: "nat \<Rightarrow> go_error + nat" where
  "demo_Accept k = (if k = 1 then Inl (Err ''accept: too many open files'') else Inr k)"

section \<open>Writing into a buffer\<close>

lemma copy_at_fit:
  "m + length src \<le> length dst \<Longrightarrow> take (m + length src) (copy_at m src dst) = take m dst @ src"
proof -
  assume a: "m + length src \<le> length dst"
  then have k: "min (length dst - m) (length src) = length src" by simp
  from a have m: "m \<le> length dst" by simp
  show ?thesis unfolding copy_at_def Let_def k using m by simp
qed

lemma length_copy_at [simp]: "length (copy_at m src dst) = length dst"
  by (simp add: copy_at_def Let_def min_def)

lemma grow_reslice:
  assumes "n \<le> buf_cap s (buffers s p) - buf_len (buffers s p)"
  shows "grow p n s = (buf_len (buffers s p),
           s\<lparr>buffers := (buffers s)(p := (buffers s p)\<lparr>buf_len := buf_len (buffers s p) + n\<rparr>)\<rparr>)"
  using assms by (simp add: grow_def Let_def)

lemma grow_small:
  assumes "\<not> n \<le> buf_cap s (buffers s p) - buf_len (buffers s p)"
      and "buf_arr (buffers s p) = None" and "n \<le> smallBufferSize"
  shows "grow p n s = (0,
           s\<lparr>arrays := (arrays s)(next_arr s := zero_bytes smallBufferSize),
             next_arr := Suc (next_arr s),
             buffers := (buffers s)(p := \<lparr>buf_arr = Some (next_arr s), buf_len = n\<rparr>)\<rparr>)"
  using assms by (simp add: grow_def Let_def alloc_def)

lemma grow_realloc:
  assumes "\<not> n \<le> buf_cap s (buffers s p) - buf_len (buffers s p)"
      and "\<not> (buf_arr (buffers s p) = None \<and> n \<le> smallBufferSize)"
  shows "grow p n s = (buf_len (buffers s p),
           s\<lparr>arrays := (arrays s)(next_arr s :=
                 contents s p @ zero_bytes (max (buf_len (buffers s p) + n)
                    (2 * buf_cap s (buffers s p)) - buf_len (buffers s p))),
             next_arr := Suc (next_arr s),
             buffers := (buffers s)(p := \<lparr>buf_arr = Some (next_arr s),
                                          buf_len = buf_len (buffers s p) + n\<rparr>)\<rparr>)"
proof (cases "buf_arr (buffers s p)")
  case None
  with assms show ?thesis
    by (simp add: grow_def Let_def alloc_def contents_def slice_bytes_def Bytes_def)
next
  case (Some a)
  with assms show ?thesis
    by (simp add: grow_def Let_def alloc_def contents_def slice_bytes_def Bytes_def)
qed

lemma WriteString_contents:
  assumes ok: "buf_ok s p"
  shows "contents (WriteString p str s) p = contents s p @ str \<and> buf_ok (WriteString p str s) p"
proof -
  let ?b = "buffers s p"
  let ?n = "length str"
  consider (reslice) "?n \<le> buf_cap s ?b - buf_len ?b"
    | (small) "\<not> ?n \<le> buf_cap s ?b - buf_len ?b" "buf_arr ?b = None" "?n \<le> smallBufferSize"
    | (realloc) "\<not> ?n \<le> buf_cap s ?b - buf_len ?b" "\<not> (buf_arr ?b = None \<and> ?n \<le> smallBufferSize)"
    by auto
  then show ?thesis
  proof cases
    case reslice
    show ?thesis
    proof (cases "buf_arr ?b")
      case None
      with reslice ok show ?thesis
        by (simp add: WriteString_def grow_reslice contents_def slice_bytes_def Bytes_def
            buf_ok_def buf_cap_def)
    next
      case (Some a)
      with reslice ok have fit: "buf_len ?b + ?n \<le> length (arrays s a)"
        by (simp add: buf_ok_def buf_cap_def)
      with Some reslice show ?thesis
        by (simp add: WriteString_def grow_reslice contents_def slice_bytes_def Bytes_def
            buf_ok_def buf_cap_def copy_at_fit)
    qed
  next
    case small
    from small(2) ok have len0: "buf_len ?b = 0"
      by (simp add: buf_ok_def buf_cap_def)
    have "take ?n (copy_at 0 str (zero_bytes smallBufferSize)) = str"
      using small(3) copy_at_fit [of 0 str "zero_bytes smallBufferSize"]
      by (simp add: zero_bytes_def)
    with small len0 show ?thesis
      by (simp add: WriteString_def grow_small contents_def slice_bytes_def Bytes_def
          buf_ok_def buf_cap_def zero_bytes_def)
  next
    case realloc
    let ?m = "buf_len ?b"
    let ?new = "contents s p @ zero_bytes (max (?m + ?n) (2 * buf_cap s ?b) - ?m)"
    from ok have lc: "length (contents s p) = ?m"
      by (auto simp: buf_ok_def buf_cap_def contents_def slice_bytes_def Bytes_def
          split: option.splits)
    then have ln: "length ?new = max (?m + ?n) (2 * buf_cap s ?b)"
      by (simp add: zero_bytes_def)
    then have "take (?m + ?n) (copy_at ?m str ?new) = take ?m ?new @ str"
      by (intro copy_at_fit) simp
    with lc have "take (?m + ?n) (copy_at ?m str ?new) = contents s p @ str"
      by simp
    with realloc ln show ?thesis
      by (simp add: WriteString_def grow_realloc slice_bytes_def Bytes_def
          buf_ok_def buf_cap_def contents_def [of "_\<lparr>arrays := _\<rparr>"])
  qed
qed

lemma WriteString_pool [simp]:
  "pool_free (WriteString p str s) = pool_free s"
  "pool_log (WriteString p str s) = pool_log s"
  "next_buf (WriteString p str s) = next_buf s"
  by (simp_all add: WriteString_def grow_def Let_def alloc_def split: option.splits prod.splits)


lemma acquire_empty:
  "buf_len (buffers (snd (acquire s)) (fst (acquire s))) = 0"
  by (simp add: acquire_def pool_Get_def Reset_def Let_def split: list.splits)

lemma acquire_ok: "buf_ok (snd (acquire s)) (fst (acquire s))"
  by (simp add: buf_ok_def acquire_empty)

lemma acquire_contents: "contents (snd (acquire s)) (fst (acquire s)) = []"
  by (simp add: contents_def slice_bytes_def Bytes_def acquire_empty split: option.splits)

lemma acquire_pool:
  "pool_log (snd (acquire s)) = pool_log s @ [PoolGet (fst (acquire s))]"
  "pool_free (snd (acquire s)) = tl (pool_free s)"
  by (simp_all add: acquire_def pool_Get_def Reset_def Let_def split: list.splits)

lemma pool_Put_contents [simp]: "slice_bytes (pool_Put p s) sl = slice_bytes s sl"
  by (simp add: pool_Put_def slice_bytes_def split: option.splits)

lemma fold_WriteString_contents:
  "buf_ok s p \<Longrightarrow>
     contents (fold (WriteString p) strs s) p = contents s p @ concat strs \<and>
     buf_ok (fold (WriteString p) strs s) p"
proof (induction strs arbitrary: s)
  case Nil
  then show ?case by simp
next
  case (Cons str strs)
  from WriteString_contents [OF Cons.prems, of str]
  have c: "contents (WriteString p str s) p = contents s p @ str"
    and ok: "buf_ok (WriteString p str s) p" by simp_all
  from Cons.IH [OF ok] c show ?case by simp
qed

lemma fold_WriteString_pool [simp]:
  "pool_free (fold (WriteString p) strs s) = pool_free s"
  "pool_log (fold (WriteString p) strs s) = pool_log s"
  by (induction strs arbitrary: s) simp_all

lemma WriteString_in_place:
  assumes "buf_arr (buffers s p) = Some a"
      and "buf_len (buffers s p) + length str \<le> length (arrays s a)"
  shows "buf_arr (buffers (WriteString p str s) p) = Some a"
    and "buf_len (buffers (WriteString p str s) p) = buf_len (buffers s p) + length str"
    and "arrays (WriteString p str s) a =
           take (buf_len (buffers s p)) (arrays s a) @ str @
           drop (buf_len (buffers s p) + length str) (arrays s a)"
proof -
  have fit: "length str \<le> buf_cap s (buffers s p) - buf_len (buffers s p)"
    using assms by (simp add: buf_cap_def)
  have k: "min (length (arrays s a) - buf_len (buffers s p)) (length str) = length str"
    using assms(2) by simp
  show "buf_arr (buffers (WriteString p str s) p) = Some a"
    and "buf_len (buffers (WriteString p str s) p) = buf_len (buffers s p) + length str"
    using assms(1) by (simp_all add: WriteString_def grow_reslice [OF fit])
  show "arrays (WriteString p str s) a =
           take (buf_len (buffers s p)) (arrays s a) @ str @
           drop (buf_len (buffers s p) + length str) (arrays s a)"
    using assms(1) by (simp add: WriteString_def grow_reslice [OF fit] copy_at_def Let_def k)
qed

lemma fold_WriteString_in_place:
  assumes "buf_arr (buffers s p) = Some a"
      and "buf_len (buffers s p) + length (concat strs) \<le> length (arrays s a)"
  shows "buf_arr (buffers (fold (WriteString p) strs s) p) = Some a \<and>
         buf_len (buffers (fold (WriteString p) strs s) p) =
           buf_len (buffers s p) + length (concat strs) \<and>
         arrays (fold (WriteString p) strs s) a =
           take (buf_len (buffers s p)) (arrays s a) @ concat strs @
           drop (buf_len (buffers s p) + length (concat strs)) (arrays s a)"
  using assms
proof (induction strs arbitrary: s)
  case Nil
  then show ?case by simp
next
  case (Cons str strs)
  let ?s = "WriteString p str s"
  let ?m = "buf_len (buffers s p)"
  have fit: "?m + length str \<le> length (arrays s a)"
    using Cons.prems(2) by simp
  note w = WriteString_in_place [OF Cons.prems(1) fit]
  have len: "length (arrays ?s a) = length (arrays s a)"
    using fit by (simp add: w(3))
  have fit': "buf_len (buffers ?s p) + length (concat strs) \<le> length (arrays ?s a)"
    using Cons.prems(2) by (simp add: w(2) len)
  have t: "take (?m + length str) (arrays ?s a) = take ?m (arrays s a) @ str"
    using fit by (simp add: w(3))
  have d: "drop (?m + (length str + length (concat strs))) (arrays ?s a) =
           drop (?m + (length str + length (concat strs))) (arrays s a)"
    using fit by (simp add: w(3) ac_simps)
  from Cons.IH [OF w(1) fit'] show ?case
    by (simp add: w(2) t d add.assoc)
qed

lemma acquire_after_Put:
  "acquire (pool_Put p s) =
     (p, s\<lparr>buffers := (buffers s)(p := (buffers s p)\<lparr>buf_len := 0\<rparr>),
           pool_log := pool_log s @ [PoolPut p, PoolGet p]\<rparr>)"
  by (simp add: acquire_def pool_Get_def pool_Put_def Reset_def)

lemma send_bytes:
  "slice_bytes (snd (send strs s)) (fst (send strs s)) = concat strs"
proof -
  obtain p s0 where a: "acquire s = (p, s0)" by (cases "acquire s")
  have ok: "buf_ok s0 p" and e: "contents s0 p = []"
    using acquire_ok [of s] acquire_contents [of s] a by simp_all
  show ?thesis
    using fold_WriteString_contents [OF ok, of strs] e
    by (simp add: send_def a Let_def contents_def)
qed

lemma send_pool:
  "pool_log (snd (send strs s)) = pool_log s @ [PoolGet (fst (acquire s)), PoolPut (fst (acquire s))]"
  "pool_free (snd (send strs s)) = fst (acquire s) # tl (pool_free s)"
  "fst (send strs s) = Bytes (fst (acquire s)) (snd (send strs s))"
  "fst (acquire (snd (send strs s))) = fst (acquire s)"
proof -
  obtain p s0 where a: "acquire s = (p, s0)" by (cases "acquire s")
  have l: "pool_log s0 = pool_log s @ [PoolGet p]" and f: "pool_free s0 = tl (pool_free s)"
    using acquire_pool [of s] a by simp_all
  show "pool_log (snd (send strs s)) = pool_log s @ [PoolGet (fst (acquire s)), PoolPut (fst (acquire s))]"
    by (simp add: send_def a Let_def pool_Put_def l)
  show "pool_free (snd (send strs s)) = fst (acquire s) # tl (pool_free s)"
    by (simp add: send_def a Let_def pool_Put_def f)
  show "fst (send strs s) = Bytes (fst (acquire s)) (snd (send strs s))"
    by (simp add: send_def a Let_def pool_Put_def Bytes_def)
  show "fst (acquire (snd (send strs s))) = fst (acquire s)"
    by (simp add: send_def a Let_def acquire_after_Put)
qed

lemma send_alias:
  assumes le: "length (concat strs') \<le> length (concat strs)"
  shows "slice_bytes (snd (send strs' (snd (send strs s)))) (fst (send strs s)) =
           concat strs' @ drop (length (concat strs')) (concat strs)"
proof -
  obtain p s0 where a: "acquire s = (p, s0)" by (cases "acquire s")
  define sw where "sw = fold (WriteString p) strs s0"
  have ok0: "buf_ok s0 p" and e: "contents s0 p = []"
    using acquire_ok [of s] acquire_contents [of s] a by simp_all
  have c: "contents sw p = concat strs" and ok: "buf_ok sw p"
    using fold_WriteString_contents [OF ok0, of strs] e by (simp_all add: sw_def)
  have first: "send strs s = (Bytes p sw, pool_Put p sw)"
    by (simp add: send_def a Let_def sw_def)
  define s0' where "s0' = sw\<lparr>buffers := (buffers sw)(p := (buffers sw p)\<lparr>buf_len := 0\<rparr>),
                              pool_log := pool_log sw @ [PoolPut p, PoolGet p]\<rparr>"
  define sw' where "sw' = fold (WriteString p) strs' s0'"
  have second: "send strs' (pool_Put p sw) = (Bytes p sw', pool_Put p sw')"
    by (simp add: send_def acquire_after_Put Let_def sw'_def s0'_def)
  show ?thesis
  proof (cases "buf_arr (buffers sw p)")
    case None
    then have n: "concat strs = []"
      using c by (simp add: contents_def slice_bytes_def Bytes_def)
    with le have n': "concat strs' = []"
      by (simp del: concat_eq_Nil_conv)
    show ?thesis
      unfolding n n' using None by (simp add: first slice_bytes_def Bytes_def)
  next
    case (Some arr)
    have tk0: "take (buf_len (buffers sw p)) (arrays sw arr) = concat strs"
      and cap0: "buf_len (buffers sw p) \<le> length (arrays sw arr)"
      using c ok Some by (simp_all add: contents_def slice_bytes_def Bytes_def buf_ok_def buf_cap_def)
    have "length (take (buf_len (buffers sw p)) (arrays sw arr)) = buf_len (buffers sw p)"
      using cap0 by simp
    then have len: "buf_len (buffers sw p) = length (concat strs)"
      by (simp only: tk0)
    have cap: "length (concat strs) \<le> length (arrays sw arr)"
      and tk: "take (length (concat strs)) (arrays sw arr) = concat strs"
      using tk0 cap0 by (simp_all only: len)
    have arr0: "buf_arr (buffers s0' p) = Some arr" and len0: "buf_len (buffers s0' p) = 0"
      and arrs0: "arrays s0' = arrays sw"
      using Some by (simp_all add: s0'_def)
    have fit: "buf_len (buffers s0' p) + length (concat strs') \<le> length (arrays s0' arr)"
      using le cap by (simp add: len0 arrs0)
    from fold_WriteString_in_place [OF arr0 fit]
    have new: "arrays sw' arr = concat strs' @ drop (length (concat strs')) (arrays sw arr)"
      by (simp add: sw'_def len0 arrs0)
    have "take (length (concat strs)) (arrays sw' arr) =
            concat strs' @ take (length (concat strs) - length (concat strs'))
                             (drop (length (concat strs')) (arrays sw arr))"
      using le by (simp add: new)
    also have "take (length (concat strs) - length (concat strs'))
                 (drop (length (concat strs')) (arrays sw arr)) =
               drop (length (concat strs')) (take (length (concat strs)) (arrays sw arr))"
      by (simp add: drop_take)
    finally have "take (length (concat strs)) (arrays sw' arr) =
                    concat strs' @ drop (length (concat strs')) (concat strs)"
      by (simp add: tk)
    moreover have "arrays (pool_Put p sw') = arrays sw'"
      by (simp add: pool_Put_def)
    ultimately show ?thesis
      using Some by (simp add: first second slice_bytes_def Bytes_def len)
  qed
qed

lemma SendStatus_send: "SendStatus date code s = send (status_lines date code) s"
  by (simp add: SendStatus_def send_def acquire_def status_lines_def Let_def split: prod.splits)

lemma SendBody_send: "SendBody date code body s = send (body_lines date code body) s"
  by (simp add: SendBody_def send_def acquire_def body_lines_def Let_def split: prod.splits)

lemma SendStatus_bytes:
  "slice_bytes (snd (SendStatus date code s)) (fst (SendStatus date code s)) =
     status_response date code"
  by (simp add: SendStatus_send send_bytes status_response_def)

lemma SendBody_bytes:
  "slice_bytes (snd (SendBody date code body s)) (fst (SendBody date code body s)) =
     body_response date code body"
  by (simp add: SendBody_send send_bytes body_response_def)

section \<open>The wire format of a status response\<close>

text \<open>
  C9. For every status code, every date and every state of the store and the pool, the
  bytes read through the slice that \<open>SendStatus\<close> returns, at the moment it returns, are
  exactly the status line with the code in decimal and the reason phrase of
  \<open>http.StatusText\<close>, then \<open>Content-Length: 0\<close>, then the \<open>Date\<close> header, then the
  empty line, and no body byte. (A code outside the table of \<open>http.StatusText\<close> has the
  empty reason phrase.)
\<close>

theorem SendStatus_wire_format:
  "slice_bytes (snd (SendStatus date code s)) (fst (SendStatus date code s)) =
     ''HTTP/1.1 '' @ fmt_d code @ '' '' @ StatusText code @ CRLF @
     ''Content-Length: 0'' @ CRLF @
     ''Date: '' @ date @ CRLF @
     CRLF"
  by (simp add: SendStatus_bytes status_response_def status_lines_def)

section \<open>Acquire and release\<close>

lemma buf_ok_length: "buf_ok s p \<Longrightarrow> length (contents s p) = buf_len (buffers s p)"
  by (auto simp: buf_ok_def buf_cap_def contents_def slice_bytes_def Bytes_def split: option.splits)

lemma send_unfold:
  "send strs s =
     (Bytes (fst (acquire s)) (fold (WriteString (fst (acquire s))) strs (snd (acquire s))),
      pool_Put (fst (acquire s)) (fold (WriteString (fst (acquire s))) strs (snd (acquire s))))"
  by (simp add: send_def Let_def split: prod.splits)

lemma send_buffer:
  "contents (snd (send strs s)) (fst (acquire s)) = concat strs"
  "buf_len (buffers (snd (send strs s)) (fst (acquire s))) = length (concat strs)"
proof -
  let ?p = "fst (acquire s)"
  let ?w = "fold (WriteString ?p) strs (snd (acquire s))"
  have c: "contents ?w ?p = concat strs" and ok: "buf_ok ?w ?p"
    using fold_WriteString_contents [OF acquire_ok, of s strs] acquire_contents [of s]
    by simp_all
  have same: "contents (pool_Put ?p ?w) ?p = contents ?w ?p"
    "buffers (pool_Put ?p ?w) = buffers ?w"
    by (simp_all add: contents_def Bytes_def pool_Put_def slice_bytes_def split: option.splits)
  show "contents (snd (send strs s)) ?p = concat strs"
    by (simp add: send_unfold same c)
  show "buf_len (buffers (snd (send strs s)) ?p) = length (concat strs)"
    using buf_ok_length [OF ok] by (simp add: send_unfold same c)
qed

lemma demo_status_responses:
  "status_response demo_date 404 =
     ''HTTP/1.1 404 Not Found'' @ CRLF @ ''Content-Length: 0'' @ CRLF @
     ''Date: Mon, 02 Jan 2006 15:04:05 MST'' @ CRLF @ CRLF"
  "status_response later_date 200 =
     ''HTTP/1.1 200 OK'' @ CRLF @ ''Content-Length: 0'' @ CRLF @
     ''Date: Mon, 02 Jan 2006 15:04:09 MST'' @ CRLF @ CRLF"
proof -
  have f: "fmt_d 200 = ''200''" "fmt_d 404 = ''404''"
    by code_simp+
  have t: "StatusText 200 = ''OK''" "StatusText 404 = ''Not Found''"
    by code_simp+
  show "status_response demo_date 404 =
     ''HTTP/1.1 404 Not Found'' @ CRLF @ ''Content-Length: 0'' @ CRLF @
     ''Date: Mon, 02 Jan 2006 15:04:05 MST'' @ CRLF @ CRLF"
    and "status_response later_date 200 =
     ''HTTP/1.1 200 OK'' @ CRLF @ ''Content-Length: 0'' @ CRLF @
     ''Date: Mon, 02 Jan 2006 15:04:09 MST'' @ CRLF @ CRLF"
    by (simp_all add: status_response_def status_lines_def f t later_date_def demo_date_def)
qed

text \<open>
  C7. Whatever the state of the pool and whatever the buffer it hands out still holds,
  the buffer has length zero and empty content once acquired (after \<open>Get\<close> and
  \<open>Reset\<close>), and that is the state in which \<open>SendStatus\<close> and \<open>SendBody\<close> make
  their first write: each of them is the acquisition, its writes in order into that
  buffer, and the release. So when the operation returns, the buffer it used holds
  exactly the bytes of this response, nothing of an earlier one, and its length is the
  length of this response. The calls the operation makes on the pool are exactly one
  \<open>Get\<close> followed by exactly one \<open>Put\<close> of that same buffer. Each operation has a
  single exit in the model, its normal return.
\<close>

theorem acquire_empty_release_once:
  "buf_len (buffers (snd (acquire s)) (fst (acquire s))) = 0 \<and>
   contents (snd (acquire s)) (fst (acquire s)) = [] \<and>
   SendStatus date code s =
     (let (p, s0) = acquire s; s1 = fold (WriteString p) (status_lines date code) s0
      in (Bytes p s1, pool_Put p s1)) \<and>
   SendBody date code body s =
     (let (p, s0) = acquire s; s1 = fold (WriteString p) (body_lines date code body) s0
      in (Bytes p s1, pool_Put p s1)) \<and>
   contents (snd (SendStatus date code s)) (fst (acquire s)) = status_response date code \<and>
   buf_len (buffers (snd (SendStatus date code s)) (fst (acquire s))) =
     length (status_response date code) \<and>
   contents (snd (SendBody date code body s)) (fst (acquire s)) = body_response date code body \<and>
   buf_len (buffers (snd (SendBody date code body s)) (fst (acquire s))) =
     length (body_response date code body) \<and>
   pool_log (snd (SendStatus date code s)) =
     pool_log s @ [PoolGet (fst (acquire s)), PoolPut (fst (acquire s))] \<and>
   pool_log (snd (SendBody date code body s)) =
     pool_log s @ [PoolGet (fst (acquire s)), PoolPut (fst (acquire s))]"
proof -
  have shape:
    "SendStatus date code s =
       (let (p, s0) = acquire s; s1 = fold (WriteString p) (status_lines date code) s0
        in (Bytes p s1, pool_Put p s1))"
    "SendBody date code body s =
       (let (p, s0) = acquire s; s1 = fold (WriteString p) (body_lines date code body) s0
        in (Bytes p s1, pool_Put p s1))"
    by (simp_all only: SendStatus_send SendBody_send send_def)
  have rest:
    "buf_len (buffers (snd (acquire s)) (fst (acquire s))) = 0"
    "contents (snd (acquire s)) (fst (acquire s)) = []"
    "contents (snd (SendStatus date code s)) (fst (acquire s)) = status_response date code"
    "buf_len (buffers (snd (SendStatus date code s)) (fst (acquire s))) =
       length (status_response date code)"
    "contents (snd (SendBody date code body s)) (fst (acquire s)) = body_response date code body"
    "buf_len (buffers (snd (SendBody date code body s)) (fst (acquire s))) =
       length (body_response date code body)"
    "pool_log (snd (SendStatus date code s)) =
       pool_log s @ [PoolGet (fst (acquire s)), PoolPut (fst (acquire s))]"
    "pool_log (snd (SendBody date code body s)) =
       pool_log s @ [PoolGet (fst (acquire s)), PoolPut (fst (acquire s))]"
    by (simp_all add: acquire_empty acquire_contents SendStatus_send SendBody_send send_pool(1)
        send_buffer status_response_def body_response_def)
  from shape rest show ?thesis
    by (intro conjI)
qed

text \<open>
  A buffer that comes back from the pool with the 82 bytes of an earlier response: once
  acquired it has length 0, and after the second call it holds the 75 bytes of the second
  response only.
\<close>

theorem acquire_empty_release_once_witness:
  "fst (acquire (snd (SendStatus demo_date 404 NewServer))) = 0 \<and>
   buf_len (buffers (snd (SendStatus demo_date 404 NewServer)) 0) = 82 \<and>
   buf_len (buffers (snd (acquire (snd (SendStatus demo_date 404 NewServer)))) 0) = 0 \<and>
   contents (snd (SendStatus later_date 200 (snd (SendStatus demo_date 404 NewServer)))) 0 =
     ''HTTP/1.1 200 OK'' @ CRLF @ ''Content-Length: 0'' @ CRLF @
     ''Date: Mon, 02 Jan 2006 15:04:09 MST'' @ CRLF @ CRLF \<and>
   buf_len (buffers (snd (SendStatus later_date 200 (snd (SendStatus demo_date 404 NewServer))))
              0) = 75 \<and>
   pool_log (snd (SendStatus later_date 200 (snd (SendStatus demo_date 404 NewServer)))) =
     [PoolGet 0, PoolPut 0, PoolGet 0, PoolPut 0]"
proof -
  let ?s1 = "snd (SendStatus demo_date 404 NewServer)"
  have p0: "fst (acquire NewServer) = 0"
    by (simp add: acquire_def pool_Get_def NewServer_def)
  have p1: "fst (acquire ?s1) = 0"
    by (simp add: SendStatus_send send_pool(4) p0)
  have l0: "pool_log NewServer = []"
    by (simp add: NewServer_def)
  have n: "length (status_response demo_date 404) = 82"
          "length (status_response later_date 200) = 75"
    by (simp_all add: demo_status_responses CRLF_def)
  have first:
    "buf_len (buffers ?s1 (fst (acquire NewServer))) = length (status_response demo_date 404)"
    "pool_log ?s1 =
       pool_log NewServer @ [PoolGet (fst (acquire NewServer)), PoolPut (fst (acquire NewServer))]"
    using acquire_empty_release_once [of NewServer demo_date 404] by blast+
  have second:
    "buf_len (buffers (snd (acquire ?s1)) (fst (acquire ?s1))) = 0"
    "contents (snd (SendStatus later_date 200 ?s1)) (fst (acquire ?s1)) =
       status_response later_date 200"
    "buf_len (buffers (snd (SendStatus later_date 200 ?s1)) (fst (acquire ?s1))) =
       length (status_response later_date 200)"
    "pool_log (snd (SendStatus later_date 200 ?s1)) =
       pool_log ?s1 @ [PoolGet (fst (acquire ?s1)), PoolPut (fst (acquire ?s1))]"
    using acquire_empty_release_once [of ?s1 later_date 200] by blast+
  note f = first [unfolded p0 l0 n]
  note g = second [unfolded p1 n]
  show ?thesis
    using f g by (simp add: p1 demo_status_responses)
qed

section \<open>The returned slice and the released buffer\<close>

text \<open>
  C3. When \<open>SendStatus\<close> or \<open>SendBody\<close> returns, the buffer it used is back on the
  free list of the pool, and the slice returned is that buffer's own slice: same backing
  array, same length. The next acquisition from the pool gets that same buffer. So when a
  second call of \<open>SendStatus\<close> or \<open>SendBody\<close> follows and its response is no longer than
  the first one, it writes into the same array: what is read through the slice of the
  first call is then the second response, followed by what is left of the first.
\<close>

theorem slice_aliases_released_buffer:
  "pool_free (snd (SendStatus date code s)) = fst (acquire s) # tl (pool_free s) \<and>
   fst (SendStatus date code s) = Bytes (fst (acquire s)) (snd (SendStatus date code s)) \<and>
   fst (acquire (snd (SendStatus date code s))) = fst (acquire s) \<and>
   pool_free (snd (SendBody date code body s)) = fst (acquire s) # tl (pool_free s) \<and>
   fst (SendBody date code body s) = Bytes (fst (acquire s)) (snd (SendBody date code body s)) \<and>
   fst (acquire (snd (SendBody date code body s))) = fst (acquire s) \<and>
   (length (status_response date' code') \<le> length (status_response date code) \<longrightarrow>
      slice_bytes (snd (SendStatus date' code' (snd (SendStatus date code s))))
                  (fst (SendStatus date code s)) =
        status_response date' code' @
        drop (length (status_response date' code')) (status_response date code)) \<and>
   (length (body_response date' code' body') \<le> length (status_response date code) \<longrightarrow>
      slice_bytes (snd (SendBody date' code' body' (snd (SendStatus date code s))))
                  (fst (SendStatus date code s)) =
        body_response date' code' body' @
        drop (length (body_response date' code' body')) (status_response date code)) \<and>
   (length (status_response date' code') \<le> length (body_response date code body) \<longrightarrow>
      slice_bytes (snd (SendStatus date' code' (snd (SendBody date code body s))))
                  (fst (SendBody date code body s)) =
        status_response date' code' @
        drop (length (status_response date' code')) (body_response date code body)) \<and>
   (length (body_response date' code' body') \<le> length (body_response date code body) \<longrightarrow>
      slice_bytes (snd (SendBody date' code' body' (snd (SendBody date code body s))))
                  (fst (SendBody date code body s)) =
        body_response date' code' body' @
        drop (length (body_response date' code' body')) (body_response date code body))"
proof -
  have released:
    "pool_free (snd (SendStatus date code s)) = fst (acquire s) # tl (pool_free s)"
    "fst (SendStatus date code s) = Bytes (fst (acquire s)) (snd (SendStatus date code s))"
    "fst (acquire (snd (SendStatus date code s))) = fst (acquire s)"
    "pool_free (snd (SendBody date code body s)) = fst (acquire s) # tl (pool_free s)"
    "fst (SendBody date code body s) = Bytes (fst (acquire s)) (snd (SendBody date code body s))"
    "fst (acquire (snd (SendBody date code body s))) = fst (acquire s)"
    unfolding SendStatus_send SendBody_send by (rule send_pool)+
  have aliased:
    "length (status_response date' code') \<le> length (status_response date code) \<longrightarrow>
      slice_bytes (snd (SendStatus date' code' (snd (SendStatus date code s))))
                  (fst (SendStatus date code s)) =
        status_response date' code' @
        drop (length (status_response date' code')) (status_response date code)"
    "length (body_response date' code' body') \<le> length (status_response date code) \<longrightarrow>
      slice_bytes (snd (SendBody date' code' body' (snd (SendStatus date code s))))
                  (fst (SendStatus date code s)) =
        body_response date' code' body' @
        drop (length (body_response date' code' body')) (status_response date code)"
    "length (status_response date' code') \<le> length (body_response date code body) \<longrightarrow>
      slice_bytes (snd (SendStatus date' code' (snd (SendBody date code body s))))
                  (fst (SendBody date code body s)) =
        status_response date' code' @
        drop (length (status_response date' code')) (body_response date code body)"
    "length (body_response date' code' body') \<le> length (body_response date code body) \<longrightarrow>
      slice_bytes (snd (SendBody date' code' body' (snd (SendBody date code body s))))
                  (fst (SendBody date code body s)) =
        body_response date' code' body' @
        drop (length (body_response date' code' body')) (body_response date code body)"
    unfolding SendStatus_send SendBody_send status_response_def body_response_def
    by (simp_all add: send_alias)
  from released aliased show ?thesis by (intro conjI)
qed

theorem slice_aliases_released_buffer_witness:
  "length (status_response later_date 200) \<le> length (status_response demo_date 404) \<and>
   slice_bytes (snd (SendStatus later_date 200 (snd (SendStatus demo_date 404 NewServer))))
               (fst (SendStatus demo_date 404 NewServer)) =
     ''HTTP/1.1 200 OK'' @ CRLF @ ''Content-Length: 0'' @ CRLF @
     ''Date: Mon, 02 Jan 2006 15:04:09 MST'' @ CRLF @ CRLF @ ''MST'' @ CRLF @ CRLF \<and>
   length (body_response later_date 200 ''hi'') \<le> length (status_response demo_date 404) \<and>
   slice_bytes (snd (SendBody later_date 200 ''hi'' (snd (SendStatus demo_date 404 NewServer))))
               (fst (SendStatus demo_date 404 NewServer)) =
     ''HTTP/1.1 200 OK'' @ CRLF @ ''Content-Length: 2'' @ CRLF @
     ''Date: Mon, 02 Jan 2006 15:04:09 MST'' @ CRLF @ CRLF @ ''hi'' @ ''T'' @ CRLF @ CRLF \<and>
   length (status_response later_date 200) \<le> length (body_response demo_date 200 ''hello'') \<and>
   slice_bytes (snd (SendStatus later_date 200 (snd (SendBody demo_date 200 ''hello'' NewServer))))
               (fst (SendBody demo_date 200 ''hello'' NewServer)) =
     ''HTTP/1.1 200 OK'' @ CRLF @ ''Content-Length: 0'' @ CRLF @
     ''Date: Mon, 02 Jan 2006 15:04:09 MST'' @ CRLF @ CRLF @ ''hello'' \<and>
   length (body_response later_date 200 ''bye'') \<le> length (body_response demo_date 200 ''hello'') \<and>
   slice_bytes (snd (SendBody later_date 200 ''bye'' (snd (SendBody demo_date 200 ''hello'' NewServer))))
               (fst (SendBody demo_date 200 ''hello'' NewServer)) =
     ''HTTP/1.1 200 OK'' @ CRLF @ ''Content-Length: 3'' @ CRLF @
     ''Date: Mon, 02 Jan 2006 15:04:09 MST'' @ CRLF @ CRLF @ ''bye'' @ ''lo''"
proof -
  have f: "fmt_d 200 = ''200''" "fmt_d 404 = ''404''" "fmt_d 0 = ''0''"
          "fmt_d 2 = ''2''" "fmt_d 3 = ''3''" "fmt_d 5 = ''5''"
    by code_simp+
  have t: "StatusText 200 = ''OK''" "StatusText 404 = ''Not Found''"
    by code_simp+
  have r: "status_response later_date 200 =
             ''HTTP/1.1 200 OK'' @ CRLF @ ''Content-Length: 0'' @ CRLF @
             ''Date: Mon, 02 Jan 2006 15:04:09 MST'' @ CRLF @ CRLF"
          "status_response demo_date 404 =
             ''HTTP/1.1 404 Not Found'' @ CRLF @ ''Content-Length: 0'' @ CRLF @
             ''Date: Mon, 02 Jan 2006 15:04:05 MST'' @ CRLF @ CRLF"
          "body_response later_date 200 ''hi'' =
             ''HTTP/1.1 200 OK'' @ CRLF @ ''Content-Length: 2'' @ CRLF @
             ''Date: Mon, 02 Jan 2006 15:04:09 MST'' @ CRLF @ CRLF @ ''hi''"
          "body_response later_date 200 ''bye'' =
             ''HTTP/1.1 200 OK'' @ CRLF @ ''Content-Length: 3'' @ CRLF @
             ''Date: Mon, 02 Jan 2006 15:04:09 MST'' @ CRLF @ CRLF @ ''bye''"
          "body_response demo_date 200 ''hello'' =
             ''HTTP/1.1 200 OK'' @ CRLF @ ''Content-Length: 5'' @ CRLF @
             ''Date: Mon, 02 Jan 2006 15:04:05 MST'' @ CRLF @ CRLF @ ''hello''"
    by (simp_all add: status_response_def body_response_def status_lines_def body_lines_def
        f t later_date_def demo_date_def)
  have l:
    "length (status_response later_date 200) \<le> length (status_response demo_date 404)"
    "length (body_response later_date 200 ''hi'') \<le> length (status_response demo_date 404)"
    "length (status_response later_date 200) \<le> length (body_response demo_date 200 ''hello'')"
    "length (body_response later_date 200 ''bye'') \<le> length (body_response demo_date 200 ''hello'')"
    by (simp_all add: r CRLF_def)
  note a = slice_aliases_released_buffer
  have c1:
    "slice_bytes (snd (SendStatus later_date 200 (snd (SendStatus demo_date 404 NewServer))))
                 (fst (SendStatus demo_date 404 NewServer)) =
       status_response later_date 200 @
       drop (length (status_response later_date 200)) (status_response demo_date 404)"
    using a [where date = demo_date and code = 404 and s = NewServer and date' = later_date
               and code' = 200] l(1) by blast
  have c2:
    "slice_bytes (snd (SendBody later_date 200 ''hi'' (snd (SendStatus demo_date 404 NewServer))))
                 (fst (SendStatus demo_date 404 NewServer)) =
       body_response later_date 200 ''hi'' @
       drop (length (body_response later_date 200 ''hi'')) (status_response demo_date 404)"
    using a [where date = demo_date and code = 404 and s = NewServer and date' = later_date
               and code' = 200 and body' = "''hi''"] l(2) by blast
  have c3:
    "slice_bytes (snd (SendStatus later_date 200 (snd (SendBody demo_date 200 ''hello'' NewServer))))
                 (fst (SendBody demo_date 200 ''hello'' NewServer)) =
       status_response later_date 200 @
       drop (length (status_response later_date 200)) (body_response demo_date 200 ''hello'')"
    using a [where date = demo_date and code = 200 and body = "''hello''" and s = NewServer
               and date' = later_date and code' = 200] l(3) by blast
  have c4:
    "slice_bytes (snd (SendBody later_date 200 ''bye'' (snd (SendBody demo_date 200 ''hello'' NewServer))))
                 (fst (SendBody demo_date 200 ''hello'' NewServer)) =
       body_response later_date 200 ''bye'' @
       drop (length (body_response later_date 200 ''bye'')) (body_response demo_date 200 ''hello'')"
    using a [where date = demo_date and code = 200 and body = "''hello''" and s = NewServer
               and date' = later_date and code' = 200 and body' = "''bye''"] l(4) by blast
  show ?thesis
    unfolding c1 c2 c3 c4 by (simp add: r CRLF_def)
qed

section \<open>One cycle of the traffic handler\<close>

lemma lower_c: "lower_byte x = CHR ''c'' \<longleftrightarrow> same_letter x CHR ''c''"
  by (simp add: lower_byte_def same_letter_def) 

lemma lower_l: "lower_byte x = CHR ''l'' \<longleftrightarrow> same_letter x CHR ''l''"
  by (simp add: lower_byte_def same_letter_def)
lemma lower_o: "lower_byte x = CHR ''o'' \<longleftrightarrow> same_letter x CHR ''o''"
  by (simp add: lower_byte_def same_letter_def)
lemma lower_s: "lower_byte x = CHR ''s'' \<longleftrightarrow> same_letter x CHR ''s''"
  by (simp add: lower_byte_def same_letter_def)
lemma lower_e: "lower_byte x = CHR ''e'' \<longleftrightarrow> same_letter x CHR ''e''"
  by (simp add: lower_byte_def same_letter_def)

lemma ToLower_close: "ToLower v = ''close'' \<longleftrightarrow> equals_ignoring_case v ''close''"
  by (auto simp: ToLower_def equals_ignoring_case_def list_all2_Cons2 map_eq_Cons_conv
      lower_c lower_l lower_o lower_s lower_e)

lemma SendStatus_OK_bytes:
  "slice_bytes (snd (SendStatus date StatusOK s)) (fst (SendStatus date StatusOK s)) = ok_200 date"
proof -
  have "fmt_d StatusOK = ''200''" by code_simp
  moreover have "StatusText StatusOK = ''OK''" by code_simp
  ultimately show ?thesis
    by (simp add: SendStatus_bytes status_response_def status_lines_def ok_200_def)
qed

lemma onTraffic_read_error:
  assumes "read_at conn (reads conn) = (data, Some e)"
  shows "onTraffic ReadRequest date s conn =
           ((if e = EOF then None else Some e), s,
            conn\<lparr>reads := Suc (reads conn), conn_log := conn_log conn @ [EvRead]\<rparr>)"
  using assms by (simp add: onTraffic_def conn_Read_def)

lemma onTraffic_parse_error:
  assumes "read_at conn (reads conn) = (data, None)" and "ReadRequest data = Inl errParse"
  shows "onTraffic ReadRequest date s conn =
           (None, s,
            conn\<lparr>reads := Suc (reads conn), writes := Suc (writes conn),
                 conn_log := conn_log conn @ [EvRead, EvWrite bad_request]\<rparr>)"
  using assms by (simp add: onTraffic_def conn_Read_def conn_Write_def)

lemma onTraffic_parsed:
  assumes "read_at conn (reads conn) = (data, None)" and "ReadRequest data = Inr req"
  shows "onTraffic ReadRequest date s conn =
           ((if equals_ignoring_case (Header_Get (Header req) ''Connection'') ''close''
             then Some EOF else None),
            snd (SendStatus date StatusOK s),
            conn\<lparr>reads := Suc (reads conn), writes := Suc (writes conn),
                 conn_log := conn_log conn @ [EvRead, EvWrite (ok_200 date)]\<rparr>)"
proof (cases "SendStatus date StatusOK s")
  case (Pair resp s1)
  with SendStatus_OK_bytes [of date s] have "slice_bytes s1 resp = ok_200 date"
    by simp
  with assms Pair show ?thesis
    by (simp add: onTraffic_def conn_Read_def conn_Write_def ToLower_close)
qed

lemma Header_Get_no_close:
  assumes "\<forall>v \<in> set (Header_values h key). \<not> equals_ignoring_case v ''close''"
  shows "\<not> equals_ignoring_case (Header_Get h key) ''close''"
proof (cases "h key")
  case None
  then show ?thesis by (simp add: Header_Get_def equals_ignoring_case_def)
next
  case (Some vs)
  with assms show ?thesis
    by (cases vs) (simp_all add: Header_Get_def Header_values_def equals_ignoring_case_def)
qed

lemma supervise_Suc:
  "supervise ReadRequest dates (Suc fuel) i s conn =
     (case onTraffic ReadRequest (dates i) s conn of
        (r, s1, conn1) \<Rightarrow>
          if r \<noteq> None
          then Returned s1 (conn1\<lparr>conn_log := conn_log conn1 @ [EvTraffic r, EvClose]\<rparr>)
          else supervise ReadRequest dates fuel (Suc i) s1
                 (conn1\<lparr>conn_log := conn_log conn1 @ [EvTraffic r, EvSetReadDeadline 3]\<rparr>))"
  by (simp add: Let_def conn_Close_def conn_SetReadDeadline_def split: prod.splits)

lemma script_Nil: "script [] d = (\<lambda>k. d)"
  by (simp add: script_def fun_eq_iff)

lemma demo_reads:
  "read_at keepalive_conn (reads keepalive_conn) = (get_keepalive_request, None)"
  "read_at close_conn (reads close_conn) = (get_close_request, None)"
  "read_at garbage_conn (reads garbage_conn) = (''hello'', None)"
  by (simp_all add: keepalive_conn_def close_conn_def garbage_conn_def NewConnection_def
      script_def)

lemma demo_parses:
  "demo_ReadRequest get_keepalive_request = Inr keepalive_req"
  "demo_ReadRequest get_close_request = Inr close_req"
  "demo_ReadRequest get_request = Inr host_req"
  "demo_ReadRequest ''hello'' = Inl (Err ''malformed HTTP request'')"
  by (simp_all add: demo_ReadRequest_def get_request_def get_keepalive_request_def
      get_close_request_def CRLF_def)

text \<open>
  C4. When the read returns bytes, the parser accepts them, and no value of the request's
  \<open>Connection\<close> header equals \<open>close\<close> ignoring case, one call of \<open>onTraffic\<close>
  returns \<open>nil\<close> (keep open) and does on the connection exactly one read followed by
  exactly one write, of the 200 response with \<open>Content-Length: 0\<close>.
\<close>

theorem onTraffic_keep_open:
  assumes "read_at conn (reads conn) = (data, None)"
      and "ReadRequest data = Inr req"
      and "\<forall>v \<in> set (Header_values (Header req) ''Connection''). \<not> equals_ignoring_case v ''close''"
  shows "fst (onTraffic ReadRequest date s conn) = None \<and>
         conn_log (snd (snd (onTraffic ReadRequest date s conn))) =
           conn_log conn @
           [EvRead,
            EvWrite (''HTTP/1.1 200 OK'' @ CRLF @ ''Content-Length: 0'' @ CRLF @
                     ''Date: '' @ date @ CRLF @ CRLF)]"
  using onTraffic_parsed [where ReadRequest = ReadRequest and date = date and s = s, OF assms(1,2)]
    Header_Get_no_close [OF assms(3)]
  by (simp add: ok_200_def)

theorem onTraffic_keep_open_witness:
  "read_at keepalive_conn (reads keepalive_conn) = (get_keepalive_request, None) \<and>
   demo_ReadRequest get_keepalive_request = Inr keepalive_req \<and>
   Header_values (Header keepalive_req) ''Connection'' = [''keep-alive''] \<and>
   \<not> equals_ignoring_case ''keep-alive'' ''close'' \<and>
   fst (onTraffic demo_ReadRequest demo_date NewServer keepalive_conn) = None \<and>
   conn_log (snd (snd (onTraffic demo_ReadRequest demo_date NewServer keepalive_conn))) =
     [EvRead,
      EvWrite (''HTTP/1.1 200 OK'' @ CRLF @ ''Content-Length: 0'' @ CRLF @
               ''Date: '' @ demo_date @ CRLF @ CRLF)]"
proof -
  have v: "Header_values (Header keepalive_req) ''Connection'' = [''keep-alive'']"
    by (simp add: Header_values_def keepalive_req_def)
  have h: "\<forall>v \<in> set (Header_values (Header keepalive_req) ''Connection'').
             \<not> equals_ignoring_case v ''close''"
    by (simp add: v equals_ignoring_case_def)
  have "conn_log keepalive_conn = []"
    by (simp add: keepalive_conn_def NewConnection_def)
  with onTraffic_keep_open [where ReadRequest = demo_ReadRequest and date = demo_date
      and s = NewServer, OF demo_reads(1) demo_parses(1) h] demo_reads(1) demo_parses(1) h v
  show ?thesis by simp
qed

text \<open>
  C5. When the read returns bytes, the parser accepts them, and the value that
  \<open>Header.Get("Connection")\<close> returns equals \<open>close\<close> ignoring case, one call of
  \<open>onTraffic\<close> does one read and then one write, of the 200 response, and returns
  \<open>io.EOF\<close>, the signal to close. When this is the first cycle of a supervisor with at
  least one unit of fuel, \<open>handleConnection\<close> returns, and the connection has seen the
  deadline of 5, the read, the write, the cycle's result and then \<open>Close\<close>.
\<close>

theorem onTraffic_connection_close:
  assumes "read_at conn (reads conn) = (data, None)"
      and "ReadRequest data = Inr req"
      and "equals_ignoring_case (Header_Get (Header req) ''Connection'') ''close''"
  shows "fst (onTraffic ReadRequest date s conn) = Some EOF \<and>
         conn_log (snd (snd (onTraffic ReadRequest date s conn))) =
           conn_log conn @
           [EvRead,
            EvWrite (''HTTP/1.1 200 OK'' @ CRLF @ ''Content-Length: 0'' @ CRLF @
                     ''Date: '' @ date @ CRLF @ CRLF)] \<and>
         returned (handleConnection ReadRequest dates (Suc fuel) s conn) \<and>
         conn_log (run_conn (handleConnection ReadRequest dates (Suc fuel) s conn)) =
           conn_log conn @
           [EvSetReadDeadline 5, EvRead,
            EvWrite (''HTTP/1.1 200 OK'' @ CRLF @ ''Content-Length: 0'' @ CRLF @
                     ''Date: '' @ dates 0 @ CRLF @ CRLF),
            EvTraffic (Some EOF), EvClose]"
proof -
  let ?c = "conn_SetReadDeadline 5 conn"
  have r: "read_at ?c (reads ?c) = (data, None)"
    using assms(1) by (simp add: conn_SetReadDeadline_def)
  show ?thesis
    using onTraffic_parsed [where ReadRequest = ReadRequest and date = date and s = s, OF assms(1,2)] onTraffic_parsed [where ReadRequest = ReadRequest and date = "dates 0" and s = s, OF r assms(2)]
      assms(3)
    by (simp add: handleConnection_def supervise_Suc ok_200_def conn_SetReadDeadline_def
        del: supervise.simps)
qed

theorem onTraffic_connection_close_witness:
  "read_at close_conn (reads close_conn) = (get_close_request, None) \<and>
   demo_ReadRequest get_close_request = Inr close_req \<and>
   Header_Get (Header close_req) ''Connection'' = ''CLOSE'' \<and>
   equals_ignoring_case (Header_Get (Header close_req) ''Connection'') ''close'' \<and>
   fst (onTraffic demo_ReadRequest demo_date NewServer close_conn) = Some EOF \<and>
   returned (handleConnection demo_ReadRequest demo_dates (Suc 0) NewServer close_conn) \<and>
   conn_log (run_conn (handleConnection demo_ReadRequest demo_dates (Suc 0) NewServer close_conn)) =
     [EvSetReadDeadline 5, EvRead,
      EvWrite (''HTTP/1.1 200 OK'' @ CRLF @ ''Content-Length: 0'' @ CRLF @
               ''Date: '' @ demo_date @ CRLF @ CRLF),
      EvTraffic (Some EOF), EvClose]"
proof -
  have g: "Header_Get (Header close_req) ''Connection'' = ''CLOSE''"
    by (simp add: Header_Get_def close_req_def)
  have "ToLower ''CLOSE'' = ''close''"
    by (simp add: ToLower_def lower_byte_def)
  then have h: "equals_ignoring_case (Header_Get (Header close_req) ''Connection'') ''close''"
    by (simp only: g ToLower_close)
  have "conn_log close_conn = []"
    by (simp add: close_conn_def NewConnection_def)
  with onTraffic_connection_close [where ReadRequest = demo_ReadRequest and date = demo_date
      and dates = demo_dates and fuel = 0 and s = NewServer, OF demo_reads(2) demo_parses(2) h]
    demo_reads(2) demo_parses(2) g h
  show ?thesis by (simp add: demo_dates_def)
qed

text \<open>
  C6. When the read returns bytes and the parser rejects them, one call of \<open>onTraffic\<close>
  returns \<open>nil\<close> (keep open), leaves the server's store and pool as they were, and does
  on the connection one read followed by one write, of exactly the bytes
  \<open>HTTP/1.1 400 Bad Request\<close>, CR LF, \<open>Content-Length: 0\<close>, CR LF, CR LF: no \<open>Date\<close>
  header and no body.
\<close>

theorem onTraffic_bad_request:
  assumes "read_at conn (reads conn) = (data, None)"
      and "ReadRequest data = Inl errParse"
  shows "onTraffic ReadRequest date s conn =
           (None, s,
            conn\<lparr>reads := Suc (reads conn), writes := Suc (writes conn),
                 conn_log := conn_log conn @
                   [EvRead,
                    EvWrite (''HTTP/1.1 400 Bad Request'' @ [CHR 0x0D, CHR 0x0A] @
                             ''Content-Length: 0'' @ [CHR 0x0D, CHR 0x0A] @
                             [CHR 0x0D, CHR 0x0A])]\<rparr>)"
  using onTraffic_parse_error [where ReadRequest = ReadRequest and date = date and s = s, OF assms]
  by (simp add: bad_request_def CRLF_def)

theorem onTraffic_bad_request_witness:
  "read_at garbage_conn (reads garbage_conn) = (''hello'', None) \<and>
   demo_ReadRequest ''hello'' = Inl (Err ''malformed HTTP request'') \<and>
   onTraffic demo_ReadRequest demo_date NewServer garbage_conn =
     (None, NewServer,
      garbage_conn\<lparr>reads := 1, writes := 1,
        conn_log := [EvRead,
                     EvWrite (''HTTP/1.1 400 Bad Request'' @ [CHR 0x0D, CHR 0x0A] @
                              ''Content-Length: 0'' @ [CHR 0x0D, CHR 0x0A] @
                              [CHR 0x0D, CHR 0x0A])]\<rparr>)"
proof -
  have "reads garbage_conn = 0" "writes garbage_conn = 0" "conn_log garbage_conn = []"
    by (simp_all add: garbage_conn_def NewConnection_def)
  with onTraffic_bad_request [where ReadRequest = demo_ReadRequest and date = demo_date
      and s = NewServer, OF demo_reads(3) demo_parses(4)] demo_reads(3) demo_parses(4)
  show ?thesis by simp
qed

section \<open>End of stream on a read\<close>

lemma supervise_peer_closed:
  assumes "read_at conn = (\<lambda>k. ([], Some EOF))"
  shows "supervise ReadRequest dates fuel i s conn =
           Running s (conn\<lparr>reads := reads conn + fuel,
                           conn_log := conn_log conn @
                             concat (replicate fuel [EvRead, EvTraffic None, EvSetReadDeadline 3])\<rparr>)"
  using assms
proof (induction fuel arbitrary: i conn)
  case 0
  then show ?case by simp
next
  case (Suc fuel)
  have r: "read_at conn (reads conn) = ([], Some EOF)"
    using Suc.prems by simp
  let ?c = "conn\<lparr>reads := Suc (reads conn), conn_log := conn_log conn @ [EvRead]\<rparr>"
  let ?c' = "?c\<lparr>conn_log := conn_log ?c @ [EvTraffic None, EvSetReadDeadline 3]\<rparr>"
  have "read_at ?c' = (\<lambda>k. ([], Some EOF))"
    using Suc.prems by simp
  from Suc.IH [OF this, of "Suc i"] show ?case
    by (simp add: supervise_Suc onTraffic_read_error [OF r] del: supervise.simps)
qed

text \<open>
  C1. On the connection \<open>peer_closed\<close>, every read of which reports \<open>io.EOF\<close>,
  \<open>onTraffic\<close> returns \<open>nil\<close>, the value that keeps the connection open, and
  \<open>handleConnection\<close> is still in its loop whatever the fuel: after \<open>n\<close> cycles it has
  made \<open>n\<close> reads, has reset the deadline to 3 after each of them, and has not called
  \<open>Close\<close>.
\<close>

theorem read_EOF_never_closes:
  "fst (onTraffic ReadRequest date s peer_closed) = None \<and>
   handleConnection ReadRequest dates fuel s peer_closed =
     Running s (peer_closed\<lparr>reads := fuel,
                 conn_log := EvSetReadDeadline 5 #
                   concat (replicate fuel [EvRead, EvTraffic None, EvSetReadDeadline 3])\<rparr>)"
proof -
  have r: "read_at peer_closed (reads peer_closed) = ([], Some EOF)"
    by (simp add: peer_closed_def NewConnection_def script_def)
  have "read_at (conn_SetReadDeadline 5 peer_closed) = (\<lambda>k. ([], Some EOF))"
    by (simp add: peer_closed_def NewConnection_def script_Nil conn_SetReadDeadline_def)
  from supervise_peer_closed [OF this]
  have "handleConnection ReadRequest dates fuel s peer_closed =
     Running s (peer_closed\<lparr>reads := fuel,
                 conn_log := EvSetReadDeadline 5 #
                   concat (replicate fuel [EvRead, EvTraffic None, EvSetReadDeadline 3])\<rparr>)"
    by (simp add: handleConnection_def conn_SetReadDeadline_def peer_closed_def NewConnection_def)
  moreover have "fst (onTraffic ReadRequest date s peer_closed) = None"
    by (simp add: onTraffic_read_error [OF r])
  ultimately show ?thesis by simp
qed

section \<open>Write failures\<close>

lemma onTraffic_with_writes:
  "onTraffic ReadRequest date s (with_writes w conn) =
     (case onTraffic ReadRequest date s conn of (r, s1, c1) \<Rightarrow> (r, s1, with_writes w c1))"
  by (simp add: onTraffic_def conn_Read_def conn_Write_def Let_def with_writes_def
      split: prod.splits option.splits sum.splits)

lemma with_writes_log:
  "(with_writes w c)\<lparr>conn_log := conn_log (with_writes w c) @ es\<rparr> =
     with_writes w (c\<lparr>conn_log := conn_log c @ es\<rparr>)"
  by (simp add: with_writes_def)

lemma supervise_with_writes:
  "supervise ReadRequest dates fuel i s (with_writes w conn) =
     map_conn (with_writes w) (supervise ReadRequest dates fuel i s conn)"
proof (induction fuel arbitrary: i s conn)
  case 0
  then show ?case by simp
next
  case (Suc fuel)
  obtain r s1 c1 where t: "onTraffic ReadRequest (dates i) s conn = (r, s1, c1)"
    by (cases "onTraffic ReadRequest (dates i) s conn")
  show ?case
  proof (cases r)
    case None
    with t show ?thesis
      by (simp add: supervise_Suc onTraffic_with_writes with_writes_log Suc.IH
          del: supervise.simps)
  next
    case (Some e)
    with t show ?thesis
      by (simp add: supervise_Suc onTraffic_with_writes with_writes_log del: supervise.simps)
  qed
qed

lemma onTraffic_unfold:
  "onTraffic ReadRequest date s conn =
     (case read_at conn (reads conn) of
        (data, Some e) \<Rightarrow>
          (if e = EOF then None else Some e, s,
           conn\<lparr>reads := Suc (reads conn), conn_log := conn_log conn @ [EvRead]\<rparr>)
      | (data, None) \<Rightarrow>
          (case ReadRequest data of
             Inl errParse \<Rightarrow>
               (None, s,
                conn\<lparr>reads := Suc (reads conn), writes := Suc (writes conn),
                     conn_log := conn_log conn @ [EvRead, EvWrite bad_request]\<rparr>)
           | Inr req \<Rightarrow>
               (if equals_ignoring_case (Header_Get (Header req) ''Connection'') ''close''
                then Some EOF else None,
                snd (SendStatus date StatusOK s),
                conn\<lparr>reads := Suc (reads conn), writes := Suc (writes conn),
                     conn_log := conn_log conn @ [EvRead, EvWrite (ok_200 date)]\<rparr>)))"
proof (cases "read_at conn (reads conn)")
  case (Pair data errRead)
  show ?thesis
  proof (cases errRead)
    case (Some e)
    with Pair show ?thesis
      by (simp add: onTraffic_read_error)
  next
    case None
    note rd = Pair [unfolded None]
    show ?thesis
    proof (cases "ReadRequest data")
      case (Inl errParse)
      with rd show ?thesis
        by (simp add: onTraffic_parse_error [where ReadRequest = ReadRequest])
    next
      case (Inr req)
      with rd show ?thesis
        by (simp add: onTraffic_parsed [where ReadRequest = ReadRequest])
    qed
  qed
qed

text \<open>
  C2, as the code has it. The result of a write never reaches the outcome of a cycle:
  \<open>onTraffic\<close> returns the same value whatever the results of the writes, and the whole
  run of \<open>handleConnection\<close>, with its cycles, its deadlines and its return or not, is
  the same run in an environment with other write results.
\<close>

theorem write_failure_ignored:
  "fst (onTraffic ReadRequest date s (with_writes w conn)) =
     fst (onTraffic ReadRequest date s conn) \<and>
   handleConnection ReadRequest dates fuel s (with_writes w conn) =
     map_conn (with_writes w) (handleConnection ReadRequest dates fuel s conn)"
proof -
  have "conn_SetReadDeadline 5 (with_writes w conn) = with_writes w (conn_SetReadDeadline 5 conn)"
    by (simp add: conn_SetReadDeadline_def with_writes_def)
  then show ?thesis
    by (simp add: handleConnection_def supervise_with_writes onTraffic_with_writes split: prod.splits)
qed

text \<open>
  On the connection \<open>broken_pipe\<close> every write fails. Its first cycle writes the 400
  response; the supervisor then resets the deadline and runs a second cycle, which reads
  and writes again; after two cycles it is still in its loop and has not closed.
\<close>

theorem write_failure_counterexample:
  "write_at broken_pipe 0 = Some (Err ''broken pipe'') \<and>
   \<not> returned (handleConnection demo_ReadRequest demo_dates 2 NewServer broken_pipe) \<and>
   conn_log (run_conn (handleConnection demo_ReadRequest demo_dates 2 NewServer broken_pipe)) =
     [EvSetReadDeadline 5,
      EvRead, EvWrite bad_request, EvTraffic None, EvSetReadDeadline 3,
      EvRead, EvWrite (ok_200 demo_date), EvTraffic None, EvSetReadDeadline 3]"
proof -
  have nc: "\<not> equals_ignoring_case (Header_Get (Header host_req) ''Connection'') ''close''"
    by (simp add: Header_Get_def host_req_def equals_ignoring_case_def)
  have run: "handleConnection demo_ReadRequest demo_dates (Suc (Suc 0)) NewServer broken_pipe =
      Running (snd (SendStatus demo_date StatusOK NewServer))
        (broken_pipe\<lparr>reads := 2, writes := 2,
           conn_log := [EvSetReadDeadline 5,
             EvRead, EvWrite bad_request, EvTraffic None, EvSetReadDeadline 3,
             EvRead, EvWrite (ok_200 demo_date), EvTraffic None, EvSetReadDeadline 3]\<rparr>)"
    by (simp add: handleConnection_def supervise_Suc onTraffic_unfold conn_SetReadDeadline_def
        broken_pipe_def NewConnection_def script_def demo_parses nc demo_dates_def
        del: supervise.simps(2))
  have w: "write_at broken_pipe 0 = Some (Err ''broken pipe'')"
    by (simp add: broken_pipe_def NewConnection_def script_def)
  show ?thesis
    unfolding numeral_2_eq_2 run using w by simp
qed

section \<open>Deadlines\<close>

lemma onTraffic_log:
  "\<exists>evs. conn_log (snd (snd (onTraffic ReadRequest date s conn))) = conn_log conn @ evs \<and>
         list_all io_event evs"
  by (simp add: onTraffic_def conn_Read_def conn_Write_def Let_def
      split: prod.splits option.splits sum.splits)

lemma deadlines_append [simp]: "deadlines (xs @ ys) = deadlines xs @ deadlines ys"
  by (induction xs rule: deadlines.induct) simp_all

lemma deadlines_io [simp]: "list_all io_event evs \<Longrightarrow> deadlines evs = []"
  by (induction evs rule: deadlines.induct) simp_all

lemma deadlines_cycles:
  "list_all (list_all io_event) cs \<Longrightarrow>
     deadlines (concat (map (\<lambda>c. c @ [EvTraffic None, EvSetReadDeadline 3]) cs)) =
       replicate (length cs) 3"
  by (induction cs) simp_all

lemma supervise_log:
  "\<exists>cs tail. list_all (list_all io_event) cs \<and>
      conn_log (run_conn (supervise ReadRequest dates fuel i s conn)) =
        conn_log conn @ concat (map (\<lambda>c. c @ [EvTraffic None, EvSetReadDeadline 3]) cs) @ tail \<and>
      (if returned (supervise ReadRequest dates fuel i s conn)
       then length cs < fuel \<and>
            (\<exists>c e. list_all io_event c \<and> tail = c @ [EvTraffic (Some e), EvClose])
       else length cs = fuel \<and> tail = [])"
proof (induction fuel arbitrary: i s conn)
  case 0
  show ?case by (rule exI [of _ "[]"]) simp
next
  case (Suc fuel)
  obtain r s1 c1 where t: "onTraffic ReadRequest (dates i) s conn = (r, s1, c1)"
    by (cases "onTraffic ReadRequest (dates i) s conn")
  from onTraffic_log [of ReadRequest "dates i" s conn] t
  obtain evs where evs: "conn_log c1 = conn_log conn @ evs" "list_all io_event evs"
    by auto
  show ?case
  proof (cases r)
    case (Some e)
    have "supervise ReadRequest dates (Suc fuel) i s conn =
            Returned s1 (c1\<lparr>conn_log := conn_log c1 @ [EvTraffic (Some e), EvClose]\<rparr>)"
      using t Some by (simp add: supervise_Suc del: supervise.simps)
    then show ?thesis
      using evs by (intro exI [of _ "[]"] exI [of _ "evs @ [EvTraffic (Some e), EvClose]"]) auto
  next
    case None
    let ?c = "c1\<lparr>conn_log := conn_log c1 @ [EvTraffic None, EvSetReadDeadline 3]\<rparr>"
    let ?r = "supervise ReadRequest dates fuel (Suc i) s1 ?c"
    have step: "supervise ReadRequest dates (Suc fuel) i s conn = ?r"
      using t None by (simp add: supervise_Suc del: supervise.simps)
    from Suc.IH [of "Suc i" s1 ?c]
    obtain cs tail where ih: "list_all (list_all io_event) cs"
      "conn_log (run_conn ?r) =
         conn_log ?c @ concat (map (\<lambda>c. c @ [EvTraffic None, EvSetReadDeadline 3]) cs) @ tail"
      "if returned ?r
       then length cs < fuel \<and>
            (\<exists>c e. list_all io_event c \<and> tail = c @ [EvTraffic (Some e), EvClose])
       else length cs = fuel \<and> tail = []"
      by blast
    show ?thesis
      unfolding step
      using ih evs
      by (intro exI [of _ "evs # cs"] exI [of _ tail]) (auto split: if_splits)
  qed
qed

text \<open>
  C8. For every connection, every environment and every amount of fuel, what
  \<open>handleConnection\<close> adds to the log of the connection is: first the deadline of 5;
  then, for each cycle that returned \<open>nil\<close>, the reads and writes of that cycle, its
  result and the deadline of 3; then either nothing, when the fuel ran out inside the loop
  after exactly that many cycles, or the reads and writes of a last cycle, its result, an
  error, and \<open>Close\<close>. So the windows set are 5 once, on entry, and 3 once after each
  cycle that continues, and no others.
\<close>

theorem deadline_5_then_3:
  "\<exists>cs tail. list_all (list_all io_event) cs \<and>
      conn_log (run_conn (handleConnection ReadRequest dates fuel s conn)) =
        conn_log conn @ [EvSetReadDeadline 5] @
        concat (map (\<lambda>c. c @ [EvTraffic None, EvSetReadDeadline 3]) cs) @ tail \<and>
      (if returned (handleConnection ReadRequest dates fuel s conn)
       then length cs < fuel \<and>
            (\<exists>c e. list_all io_event c \<and> tail = c @ [EvTraffic (Some e), EvClose])
       else length cs = fuel \<and> tail = []) \<and>
      deadlines (conn_log (run_conn (handleConnection ReadRequest dates fuel s conn))) =
        deadlines (conn_log conn) @ 5 # replicate (length cs) 3"
proof -
  let ?c = "conn_SetReadDeadline 5 conn"
  let ?r = "supervise ReadRequest dates fuel 0 s ?c"
  from supervise_log [of ReadRequest dates fuel 0 s ?c]
  obtain cs tail where ih: "list_all (list_all io_event) cs"
      "conn_log (run_conn ?r) =
         conn_log ?c @ concat (map (\<lambda>c. c @ [EvTraffic None, EvSetReadDeadline 3]) cs) @ tail"
      "if returned ?r
       then length cs < fuel \<and>
            (\<exists>c e. list_all io_event c \<and> tail = c @ [EvTraffic (Some e), EvClose])
       else length cs = fuel \<and> tail = []"
    by blast
  have dt: "deadlines tail = []"
    using ih(3) by (auto split: if_splits)
  have log: "conn_log ?c = conn_log conn @ [EvSetReadDeadline 5]"
    by (simp add: conn_SetReadDeadline_def)
  show ?thesis
    unfolding handleConnection_def
    using ih(1,3) dt
    by (intro exI [of _ cs] exI [of _ tail]) (simp add: ih(2) log deadlines_cycles)
qed

theorem deadline_5_then_3_witness:
  "(\<exists>cs tail. list_all (list_all io_event) cs \<and>
      conn_log (run_conn (handleConnection demo_ReadRequest demo_dates 5 NewServer two_requests)) =
        conn_log two_requests @ [EvSetReadDeadline 5] @
        concat (map (\<lambda>c. c @ [EvTraffic None, EvSetReadDeadline 3]) cs) @ tail \<and>
      (if returned (handleConnection demo_ReadRequest demo_dates 5 NewServer two_requests)
       then length cs < 5 \<and>
            (\<exists>c e. list_all io_event c \<and> tail = c @ [EvTraffic (Some e), EvClose])
       else length cs = 5 \<and> tail = []) \<and>
      deadlines (conn_log (run_conn (handleConnection demo_ReadRequest demo_dates 5 NewServer
                                       two_requests))) =
        deadlines (conn_log two_requests) @ 5 # replicate (length cs) 3) \<and>
   returned (handleConnection demo_ReadRequest demo_dates 5 NewServer two_requests) \<and>
   conn_log (run_conn (handleConnection demo_ReadRequest demo_dates 5 NewServer two_requests)) =
     [EvSetReadDeadline 5,
      EvRead, EvWrite (ok_200 demo_date), EvTraffic None, EvSetReadDeadline 3,
      EvRead, EvWrite (ok_200 demo_date), EvTraffic (Some EOF), EvClose] \<and>
   deadlines (conn_log (run_conn (handleConnection demo_ReadRequest demo_dates 5 NewServer
                                    two_requests))) = [5, 3]"
proof -
  have nc: "\<not> equals_ignoring_case (Header_Get (Header host_req) ''Connection'') ''close''"
    by (simp add: Header_Get_def host_req_def equals_ignoring_case_def)
  have "ToLower ''CLOSE'' = ''close''"
    by (simp add: ToLower_def lower_byte_def)
  then have c: "equals_ignoring_case (Header_Get (Header close_req) ''Connection'') ''close''"
    by (simp add: Header_Get_def close_req_def ToLower_close)
  have run: "handleConnection demo_ReadRequest demo_dates (Suc (Suc (Suc (Suc (Suc 0))))) NewServer
               two_requests =
      Returned (snd (SendStatus demo_date StatusOK (snd (SendStatus demo_date StatusOK NewServer))))
        (two_requests\<lparr>reads := 2, writes := 2,
           conn_log := [EvSetReadDeadline 5,
             EvRead, EvWrite (ok_200 demo_date), EvTraffic None, EvSetReadDeadline 3,
             EvRead, EvWrite (ok_200 demo_date), EvTraffic (Some EOF), EvClose]\<rparr>)"
    by (simp add: handleConnection_def supervise_Suc onTraffic_unfold conn_SetReadDeadline_def
        two_requests_def NewConnection_def script_def demo_parses nc c demo_dates_def
        del: supervise.simps(2))
  have five: "(5::nat) = Suc (Suc (Suc (Suc (Suc 0))))"
    by simp
  have concrete:
    "returned (handleConnection demo_ReadRequest demo_dates 5 NewServer two_requests)"
    "conn_log (run_conn (handleConnection demo_ReadRequest demo_dates 5 NewServer two_requests)) =
       [EvSetReadDeadline 5,
        EvRead, EvWrite (ok_200 demo_date), EvTraffic None, EvSetReadDeadline 3,
        EvRead, EvWrite (ok_200 demo_date), EvTraffic (Some EOF), EvClose]"
    unfolding five run by simp_all
  have "deadlines (conn_log (run_conn (handleConnection demo_ReadRequest demo_dates 5 NewServer
                                         two_requests))) = [5, 3]"
    unfolding concrete(2) by simp
  with concrete
    deadline_5_then_3 [of demo_ReadRequest demo_dates 5 NewServer two_requests]
  show ?thesis by blast
qed

section \<open>Accept errors\<close>

lemma accept_loop_trace:
  "accept_loop Accept fuel k tr = tr @ map (\<lambda>j. accept_event (Accept j)) [k..<k + fuel]"
proof (induction fuel arbitrary: k tr)
  case 0
  then show ?case by simp
next
  case (Suc fuel)
  have "[k..<k + Suc fuel] = k # [Suc k..<Suc k + fuel]"
    by (simp add: upt_conv_Cons)
  then show ?case
    by (simp add: Suc.IH accept_event_def split: sum.splits)
qed

text \<open>
  C10. When the listener starts, \<open>Run\<close> never returns: for every sequence of accept
  results and every amount of fuel it is still in its loop, having logged that it listens
  and then handled every accept result in order, an error by a log line, a connection by
  starting a handler, so that every connection accepted after an error is handled all the
  same. When the listener does not start, \<open>Run\<close> returns the error, wrapped, without
  any accept.
\<close>

theorem accept_errors_do_not_stop_Run:
  "(Listen address = None \<longrightarrow>
      Run Listen Accept fuel address =
        RunLooping (LogListening address # map (\<lambda>k. accept_event (Accept k)) [0..<fuel])) \<and>
   (Listen address = Some errListen \<longrightarrow>
      Run Listen Accept fuel address = RunReturned (Wrapped ''listener start'' errListen) [])"
  by (simp add: Run_def accept_loop_trace)

theorem accept_errors_do_not_stop_Run_witness:
  "demo_Listen '':8443'' = None \<and>
   Run demo_Listen demo_Accept 3 '':8443'' =
     RunLooping [LogListening '':8443'', GoHandleConnection 0,
                 LogAcceptFailed (Err ''accept: too many open files''), GoHandleConnection 2] \<and>
   demo_Listen '':443'' = Some (Err ''bind: address already in use'') \<and>
   Run demo_Listen demo_Accept 3 '':443'' =
     RunReturned (Wrapped ''listener start'' (Err ''bind: address already in use'')) []"
proof -
  have l: "demo_Listen '':8443'' = None"
          "demo_Listen '':443'' = Some (Err ''bind: address already in use'')"
    by (simp_all add: demo_Listen_def)
  have u: "[0..<3] = [0, 1, 2]"
    by (simp add: upt_rec)
  from accept_errors_do_not_stop_Run [where Listen = demo_Listen and address = "'':8443''"
         and Accept = demo_Accept and fuel = 3]
       accept_errors_do_not_stop_Run [where Listen = demo_Listen and address = "'':443''"
         and Accept = demo_Accept and fuel = 3
         and errListen = "Err ''bind: address already in use''"] l
  show ?thesis
    by (simp add: u accept_event_def demo_Accept_def)
qed

end
